theory Spec2Isabelle
  imports Complex_Main
begin

section \<open>Stochastic solvers for entropic optimal transport (ot/stochastic.py)\<close>

text \<open>
  The embedding works in exact real arithmetic: a numpy array of floats is a list of
  reals, and rounding, overflow and underflow of the floating-point operations are not
  modelled. Every exception the Python code can raise is a value of \<open>error\<close>. Where
  numpy would silently produce \<open>inf\<close> or \<open>nan\<close> (a division by zero on an array, the
  logarithm of a non-positive number) no real number describes the value, and the model
  stops with the outcome \<open>NonFinite\<close>: from that point on it says nothing about the run.

  The process-wide random generator of numpy is an explicit argument: the raw numbers it
  would produce are given by functions, and \<open>randint\<close>, \<open>choice\<close> and \<open>randn\<close> turn them
  into the values numpy promises (an index below the bound, distinct indices, reals).
  The distribution of the draws is not part of the model.

  Iteration counts and the batch size are natural numbers, a learning rate that may be
  \<open>None\<close> is a \<open>real option\<close>, and the method name is a string of 8-bit characters.
\<close>

subsection \<open>Errors and sequencing\<close>

datatype error = IndexError | ValueError | ZeroDivisionError | NonFinite

definition ebind :: "error + 'a \<Rightarrow> ('a \<Rightarrow> error + 'b) \<Rightarrow> error + 'b" where
  "ebind m f = (case m of Inl e \<Rightarrow> Inl e | Inr x \<Rightarrow> f x)"

text \<open>\<open>for i in range(n): s = body(i, s)\<close>, stopping at the first exception.\<close>

primrec for_range :: "nat \<Rightarrow> (nat \<Rightarrow> 's \<Rightarrow> error + 's) \<Rightarrow> 's \<Rightarrow> error + 's" where
  "for_range 0 body s = Inr s"
| "for_range (Suc n) body s = ebind (for_range n body s) (body n)"

text \<open>\<open>for x in xs: s = body(x, s)\<close>.\<close>

primrec for_each :: "'a list \<Rightarrow> ('a \<Rightarrow> 's \<Rightarrow> error + 's) \<Rightarrow> 's \<Rightarrow> error + 's" where
  "for_each [] body s = Inr s"
| "for_each (x # xs) body s = ebind (body x s) (for_each xs body)"

subsection \<open>The numpy operations the module uses\<close>

type_synonym vec = "real list"

text \<open>A two-dimensional array: its shape and its entries (rectangular by construction).\<close>

record matrix =
  n_rows :: nat
  n_cols :: nat
  cell :: "nat \<Rightarrow> nat \<Rightarrow> real"

text \<open>Python indexing along an axis of length \<open>n\<close>: negative indices count from the end.\<close>

definition py_index :: "nat \<Rightarrow> int \<Rightarrow> error + nat" where
  "py_index n i =
     (let j = (if i < 0 then int n + i else i)
      in if 0 \<le> j \<and> j < int n then Inr (nat j) else Inl IndexError)"

text \<open>\<open>xs[i]\<close> for an integer \<open>i\<close>.\<close>

definition getitem :: "'a list \<Rightarrow> int \<Rightarrow> error + 'a" where
  "getitem xs i = ebind (py_index (length xs) i) (\<lambda>k. Inr (xs ! k))"

text \<open>\<open>M[i, :]\<close>.\<close>

definition row_at :: "matrix \<Rightarrow> int \<Rightarrow> error + vec" where
  "row_at M i = ebind (py_index (n_rows M) i) (\<lambda>k. Inr (map (cell M k) [0..<n_cols M]))"

text \<open>
  Broadcasting of two axes: equal lengths, or one of them is 1 and is stretched.
  \<open>bget xs k\<close> reads position \<open>k\<close> of an operand that may have been stretched.
\<close>

definition bdim :: "nat \<Rightarrow> nat \<Rightarrow> error + nat" where
  "bdim m n =
     (if m = n then Inr m else if m = 1 then Inr n else if n = 1 then Inr m
      else Inl ValueError)"

definition bget :: "'a list \<Rightarrow> nat \<Rightarrow> 'a" where
  "bget xs k = xs ! (if length xs = 1 then 0 else k)"

text \<open>An elementwise binary operation \<open>xs op ys\<close> on one-dimensional arrays.\<close>

definition broadcast2 :: "(real \<Rightarrow> real \<Rightarrow> real) \<Rightarrow> vec \<Rightarrow> vec \<Rightarrow> error + vec" where
  "broadcast2 f xs ys =
     ebind (bdim (length xs) (length ys))
       (\<lambda>n. Inr (map (\<lambda>k. f (bget xs k) (bget ys k)) [0..<n]))"

text \<open>
  The in-place form \<open>xs op= ys\<close>: the result keeps the shape of \<open>xs\<close>, so \<open>ys\<close> must
  have that shape or length 1.
\<close>

definition inplace :: "(real \<Rightarrow> real \<Rightarrow> real) \<Rightarrow> vec \<Rightarrow> vec \<Rightarrow> error + vec" where
  "inplace f xs ys =
     (if length ys = length xs \<or> length ys = 1
      then Inr (map (\<lambda>k. f (xs ! k) (bget ys k)) [0..<length xs])
      else Inl ValueError)"

text \<open>\<open>xs / c\<close> for a scalar \<open>c\<close>: numpy yields \<open>inf\<close> or \<open>nan\<close> entries when \<open>c\<close> is zero.\<close>

definition div_scalar :: "vec \<Rightarrow> real \<Rightarrow> error + vec" where
  "div_scalar xs c =
     (if c = 0 \<and> xs \<noteq> [] then Inl NonFinite else Inr (map (\<lambda>x. x / c) xs))"

text \<open>\<open>x / y\<close> on numpy scalars.\<close>

definition div_float :: "real \<Rightarrow> real \<Rightarrow> error + real" where
  "div_float x y = (if y = 0 then Inl NonFinite else Inr (x / y))"

text \<open>\<open>np.log\<close> of a scalar: \<open>-inf\<close> at zero and \<open>nan\<close> below.\<close>

definition np_log :: "real \<Rightarrow> error + real" where
  "np_log x = (if x \<le> 0 then Inl NonFinite else Inr (ln x))"

text \<open>Python's \<open>max\<close> over the entries, and \<open>np.min\<close>: both raise on an empty array.\<close>

definition py_max :: "vec \<Rightarrow> error + real" where
  "py_max xs = (if xs = [] then Inl ValueError else Inr (Max (set xs)))"

definition np_min :: "vec \<Rightarrow> error + real" where
  "np_min xs = (if xs = [] then Inl ValueError else Inr (Min (set xs)))"

text \<open>\<open>np.random.randint(n)\<close>: an index below \<open>n\<close>, from the raw number drawn.\<close>

definition randint :: "nat \<Rightarrow> nat \<Rightarrow> error + int" where
  "randint raw n = (if n = 0 then Inl ValueError else Inr (int (raw mod n)))"

subsection \<open>Semi-dual problem: the coordinate gradient\<close>

definition coordinate_grad_semi_dual ::
  "vec \<Rightarrow> matrix \<Rightarrow> real \<Rightarrow> vec \<Rightarrow> int \<Rightarrow> error + vec" where
  "coordinate_grad_semi_dual b M reg beta i =
     ebind (row_at M i) (\<lambda>Mi.
     ebind (broadcast2 (-) Mi beta) (\<lambda>r.
     ebind (div_scalar (map uminus r) reg) (\<lambda>q.
     ebind (broadcast2 (*) (map exp q) b) (\<lambda>exp_beta.
     ebind (div_scalar exp_beta (sum_list exp_beta)) (\<lambda>khi.
     broadcast2 (-) b khi)))))"

subsection \<open>Semi-dual problem: SAG\<close>

text \<open>\<open>rows[i] = v\<close> on a two-dimensional array: \<open>v\<close> is stretched to the row's shape.\<close>

definition set_row :: "vec list \<Rightarrow> int \<Rightarrow> vec \<Rightarrow> error + vec list" where
  "set_row rows i v =
     ebind (py_index (length rows) i) (\<lambda>k.
       let n = length (rows ! k)
       in if length v = n \<or> length v = 1
          then Inr (rows[k := map (bget v) [0..<n]])
          else Inl ValueError)"

record sag_state =
  cur_beta :: vec
  stored_gradient :: "vec list"
  sum_stored_gradient :: vec

text \<open>The body of the loop of \<open>sag_entropic_transport\<close>, at iteration \<open>it\<close>.\<close>

definition sag_iteration ::
  "vec \<Rightarrow> vec \<Rightarrow> matrix \<Rightarrow> real \<Rightarrow> real \<Rightarrow> nat \<Rightarrow> (nat \<Rightarrow> nat) \<Rightarrow> nat \<Rightarrow> sag_state
     \<Rightarrow> error + sag_state" where
  "sag_iteration a b M reg lr n_source draws it st =
     ebind (randint (draws it) n_source) (\<lambda>i.
     ebind (getitem a i) (\<lambda>a_i.
     ebind (coordinate_grad_semi_dual b M reg (cur_beta st) i) (\<lambda>g.
     let cur_coord_grad = map (\<lambda>x. a_i * x) g in
     ebind (getitem (stored_gradient st) i) (\<lambda>old.
     ebind (broadcast2 (-) cur_coord_grad old) (\<lambda>delta.
     ebind (inplace (+) (sum_stored_gradient st) delta) (\<lambda>sum_stored_gradient'.
     ebind (set_row (stored_gradient st) i cur_coord_grad) (\<lambda>stored_gradient'.
     ebind (if n_source = 0 then Inl ZeroDivisionError else Inr (1 / real n_source)) (\<lambda>inv_n.
     ebind (inplace (+) (cur_beta st) (map (\<lambda>x. lr * inv_n * x) sum_stored_gradient'))
       (\<lambda>cur_beta'.
     Inr \<lparr>cur_beta = cur_beta', stored_gradient = stored_gradient',
          sum_stored_gradient = sum_stored_gradient'\<rparr>)))))))))"

text \<open>The state before the first iteration, and the state after \<open>n\<close> iterations.\<close>

definition sag_init :: "matrix \<Rightarrow> sag_state" where
  "sag_init M =
     (let n_source = n_rows M; n_target = n_cols M
      in \<lparr>cur_beta = replicate n_target 0,
          stored_gradient = replicate n_source (replicate n_target 0),
          sum_stored_gradient = replicate n_target 0\<rparr>)"

definition sag_loop ::
  "vec \<Rightarrow> vec \<Rightarrow> matrix \<Rightarrow> real \<Rightarrow> real \<Rightarrow> (nat \<Rightarrow> nat) \<Rightarrow> nat \<Rightarrow> error + sag_state" where
  "sag_loop a b M reg lr draws n =
     for_range n (sag_iteration a b M reg lr (n_rows M) draws) (sag_init M)"

definition sag_entropic_transport ::
  "vec \<Rightarrow> vec \<Rightarrow> matrix \<Rightarrow> real \<Rightarrow> nat \<Rightarrow> real option \<Rightarrow> (nat \<Rightarrow> nat) \<Rightarrow> error + vec" where
  "sag_entropic_transport a b M reg numItermax lr draws =
     ebind (case lr of
              None \<Rightarrow> ebind (div_scalar a reg) (\<lambda>q. ebind (py_max q) (\<lambda>m. div_float 1 m))
            | Some l \<Rightarrow> Inr l) (\<lambda>lr.
     ebind (sag_loop a b M reg lr draws numItermax) (\<lambda>st.
     Inr (cur_beta st)))"

subsection \<open>Semi-dual problem: averaged SGD\<close>

record asgd_state =
  asgd_cur_beta :: vec
  ave_beta :: vec

definition asgd_iteration ::
  "vec \<Rightarrow> matrix \<Rightarrow> real \<Rightarrow> real \<Rightarrow> nat \<Rightarrow> (nat \<Rightarrow> nat) \<Rightarrow> nat \<Rightarrow> asgd_state
     \<Rightarrow> error + asgd_state" where
  "asgd_iteration b M reg lr n_source draws cur_iter st =
     (let k = cur_iter + 1 in
      ebind (randint (draws cur_iter) n_source) (\<lambda>i.
      ebind (coordinate_grad_semi_dual b M reg (asgd_cur_beta st) i) (\<lambda>cur_coord_grad.
      ebind (inplace (+) (asgd_cur_beta st)
               (map (\<lambda>x. (lr / sqrt (real k)) * x) cur_coord_grad)) (\<lambda>cur_beta'.
      ebind (broadcast2 (+) (map (\<lambda>x. (1 / real k) * x) cur_beta')
               (map (\<lambda>x. (1 - 1 / real k) * x) (ave_beta st))) (\<lambda>ave_beta'.
      Inr \<lparr>asgd_cur_beta = cur_beta', ave_beta = ave_beta'\<rparr>)))))"

definition asgd_init :: "matrix \<Rightarrow> asgd_state" where
  "asgd_init M =
     (let n_target = n_cols M
      in \<lparr>asgd_cur_beta = replicate n_target 0, ave_beta = replicate n_target 0\<rparr>)"

definition asgd_loop ::
  "vec \<Rightarrow> matrix \<Rightarrow> real \<Rightarrow> real \<Rightarrow> (nat \<Rightarrow> nat) \<Rightarrow> nat \<Rightarrow> error + asgd_state" where
  "asgd_loop b M reg lr draws n =
     for_range n (asgd_iteration b M reg lr (n_rows M) draws) (asgd_init M)"

definition averaged_sgd_entropic_transport ::
  "vec \<Rightarrow> vec \<Rightarrow> matrix \<Rightarrow> real \<Rightarrow> nat \<Rightarrow> real option \<Rightarrow> (nat \<Rightarrow> nat) \<Rightarrow> error + vec" where
  "averaged_sgd_entropic_transport a b M reg numItermax lr draws =
     ebind (case lr of
              None \<Rightarrow> ebind (div_scalar a reg) (\<lambda>q. ebind (py_max q) (\<lambda>m. div_float 1 m))
            | Some l \<Rightarrow> Inr l) (\<lambda>lr.
     ebind (asgd_loop b M reg lr draws numItermax) (\<lambda>st.
     Inr (ave_beta st)))"

subsection \<open>Semi-dual problem: the c-transform\<close>

definition c_transform_iteration ::
  "vec \<Rightarrow> matrix \<Rightarrow> real \<Rightarrow> vec \<Rightarrow> nat \<Rightarrow> vec \<Rightarrow> error + vec" where
  "c_transform_iteration b M reg beta i alpha =
     ebind (row_at M (int i)) (\<lambda>Mi.
     ebind (broadcast2 (-) Mi beta) (\<lambda>r.
     ebind (np_min r) (\<lambda>min_r.
     ebind (div_scalar (map (\<lambda>x. - (x - min_r)) r) reg) (\<lambda>q.
     ebind (broadcast2 (*) (map exp q) b) (\<lambda>exp_beta.
     ebind (np_log (sum_list exp_beta)) (\<lambda>l.
     Inr (alpha[i := min_r - reg * l])))))))"

definition c_transform_entropic :: "vec \<Rightarrow> matrix \<Rightarrow> real \<Rightarrow> vec \<Rightarrow> error + vec" where
  "c_transform_entropic b M reg beta =
     (let n_source = n_rows M; alpha = replicate n_source 0
      in for_range n_source (c_transform_iteration b M reg beta) alpha)"

subsection \<open>Two-dimensional broadcasting and the orchestrator of the semi-dual solvers\<close>

text \<open>\<open>xs[:, None]\<close> and \<open>xs[None, :]\<close>: a column and a row.\<close>

definition col_vec :: "vec \<Rightarrow> matrix" where
  "col_vec xs = \<lparr>n_rows = length xs, n_cols = 1, cell = (\<lambda>i j. xs ! i)\<rparr>"

definition row_vec :: "vec \<Rightarrow> matrix" where
  "row_vec xs = \<lparr>n_rows = 1, n_cols = length xs, cell = (\<lambda>i j. xs ! j)\<rparr>"

definition mget :: "matrix \<Rightarrow> nat \<Rightarrow> nat \<Rightarrow> real" where
  "mget A i j = cell A (if n_rows A = 1 then 0 else i) (if n_cols A = 1 then 0 else j)"

definition broadcast2d :: "(real \<Rightarrow> real \<Rightarrow> real) \<Rightarrow> matrix \<Rightarrow> matrix \<Rightarrow> error + matrix" where
  "broadcast2d f A B =
     ebind (bdim (n_rows A) (n_rows B)) (\<lambda>r.
     ebind (bdim (n_cols A) (n_cols B)) (\<lambda>c.
     Inr \<lparr>n_rows = r, n_cols = c, cell = (\<lambda>i j. f (mget A i j) (mget B i j))\<rparr>))"

definition div_scalar2d :: "matrix \<Rightarrow> real \<Rightarrow> error + matrix" where
  "div_scalar2d A c =
     (if c = 0 \<and> n_rows A * n_cols A \<noteq> 0 then Inl NonFinite
      else Inr (A\<lparr>cell := (\<lambda>i j. cell A i j / c)\<rparr>))"

definition exp2d :: "matrix \<Rightarrow> matrix" where
  "exp2d A = A\<lparr>cell := (\<lambda>i j. exp (cell A i j))\<rparr>"

text \<open>
  \<open>str.lower\<close> on a string of 8-bit characters: the letters \<open>A\<close> to \<open>Z\<close> are mapped to
  \<open>a\<close> to \<open>z\<close>. Characters outside ASCII are left as they are; in Python none of them
  is mapped to a letter of \<open>sag\<close> or \<open>asgd\<close>.
\<close>

definition lower_char :: "char \<Rightarrow> char" where
  "lower_char c =
     (let n = (of_char c :: nat) in if 65 \<le> n \<and> n \<le> 90 then char_of (n + 32) else c)"

definition lower :: "string \<Rightarrow> string" where
  "lower s = map lower_char s"

text \<open>
  What an orchestrator returns: \<open>None\<close>, the plan \<open>pi\<close>, or the pair \<open>(pi, log)\<close> where
  \<open>log\<close> is a dictionary.
\<close>

datatype retval = RNone | RPlan matrix | RPlanLog matrix "string \<rightharpoonup> vec"

text \<open>
  The second half of \<open>solve_semi_dual_entropic\<close>, once \<open>opt_beta\<close> is known: the
  c-transform, the plan and the optional log.
\<close>

definition semi_dual_plan ::
  "vec \<Rightarrow> vec \<Rightarrow> matrix \<Rightarrow> real \<Rightarrow> bool \<Rightarrow> vec \<Rightarrow> error + retval" where
  "semi_dual_plan a b M reg log_flag opt_beta =
     ebind (c_transform_entropic b M reg opt_beta) (\<lambda>opt_alpha.
     ebind (broadcast2d (+) (col_vec opt_alpha) (row_vec opt_beta)) (\<lambda>s.
     ebind (broadcast2d (-) s M) (\<lambda>t.
     ebind (div_scalar2d t reg) (\<lambda>q.
     ebind (broadcast2d (*) (exp2d q) (col_vec a)) (\<lambda>u.
     ebind (broadcast2d (*) u (row_vec b)) (\<lambda>pi.
     if log_flag
     then Inr (RPlanLog pi (Map.empty(''alpha'' \<mapsto> opt_alpha, ''beta'' \<mapsto> opt_beta)))
     else Inr (RPlan pi)))))))"

text \<open>
  The result of \<open>solve_semi_dual_entropic\<close> is the list of lines printed, with either
  the exception raised or the value returned.
\<close>

definition solve_semi_dual_entropic ::
  "vec \<Rightarrow> vec \<Rightarrow> matrix \<Rightarrow> real \<Rightarrow> string \<Rightarrow> nat \<Rightarrow> real option \<Rightarrow> bool \<Rightarrow> (nat \<Rightarrow> nat)
     \<Rightarrow> string list \<times> (error + retval)" where
  "solve_semi_dual_entropic a b M reg method numItermax lr log_flag draws =
     (if lower method = ''sag''
      then ([], ebind (sag_entropic_transport a b M reg numItermax lr draws)
                  (semi_dual_plan a b M reg log_flag))
      else if lower method = ''asgd''
      then ([], ebind (averaged_sgd_entropic_transport a b M reg numItermax lr draws)
                  (semi_dual_plan a b M reg log_flag))
      else ([''Please, select your method between SAG and ASGD''], Inr RNone))"

subsection \<open>Dual problem: the batch gradients\<close>

primrec sequence :: "(error + 'a) list \<Rightarrow> error + 'a list" where
  "sequence [] = Inr []"
| "sequence (m # ms) = ebind m (\<lambda>x. ebind (sequence ms) (\<lambda>xs. Inr (x # xs)))"

text \<open>\<open>xs[idx]\<close>, \<open>M[idx, j]\<close> and \<open>M[i, idx]\<close> for an array \<open>idx\<close> of indices.\<close>

definition take_idx :: "vec \<Rightarrow> int list \<Rightarrow> error + vec" where
  "take_idx xs idx = sequence (map (getitem xs) idx)"

definition cells_in_col :: "matrix \<Rightarrow> int list \<Rightarrow> int \<Rightarrow> error + vec" where
  "cells_in_col M idx j =
     ebind (py_index (n_cols M) j) (\<lambda>c.
     sequence (map (\<lambda>i. ebind (py_index (n_rows M) i) (\<lambda>r. Inr (cell M r c))) idx))"

definition cells_in_row :: "matrix \<Rightarrow> int \<Rightarrow> int list \<Rightarrow> error + vec" where
  "cells_in_row M i idx =
     ebind (py_index (n_rows M) i) (\<lambda>r.
     sequence (map (\<lambda>j. ebind (py_index (n_cols M) j) (\<lambda>c. Inr (cell M r c))) idx))"

definition batch_grad_dual_alpha ::
  "matrix \<Rightarrow> real \<Rightarrow> vec \<Rightarrow> vec \<Rightarrow> nat \<Rightarrow> int list \<Rightarrow> int list \<Rightarrow> error + vec" where
  "batch_grad_dual_alpha M reg alpha beta batch_size batch_alpha batch_beta =
     for_each batch_beta (\<lambda>j grad_alpha.
       ebind (take_idx alpha batch_alpha) (\<lambda>alpha_b.
       ebind (getitem beta j) (\<lambda>beta_j.
       ebind (cells_in_col M batch_alpha j) (\<lambda>M_bj.
       ebind (broadcast2 (-) (map (\<lambda>x. x + beta_j) alpha_b) M_bj) (\<lambda>t.
       ebind (div_scalar t reg) (\<lambda>q.
       inplace (-) grad_alpha (map exp q)))))))
     (replicate batch_size (real batch_size))"

definition batch_grad_dual_beta ::
  "matrix \<Rightarrow> real \<Rightarrow> vec \<Rightarrow> vec \<Rightarrow> nat \<Rightarrow> int list \<Rightarrow> int list \<Rightarrow> error + vec" where
  "batch_grad_dual_beta M reg alpha beta batch_size batch_alpha batch_beta =
     for_each batch_alpha (\<lambda>i grad_beta.
       ebind (getitem alpha i) (\<lambda>alpha_i.
       ebind (take_idx beta batch_beta) (\<lambda>beta_b.
       ebind (cells_in_row M i batch_beta) (\<lambda>M_ib.
       ebind (broadcast2 (-) (map (\<lambda>x. alpha_i + x) beta_b) M_ib) (\<lambda>t.
       ebind (div_scalar t reg) (\<lambda>q.
       inplace (-) grad_beta (map exp q)))))))
     (replicate batch_size (real batch_size))"

subsection \<open>Dual problem: batched SGD\<close>

text \<open>
  \<open>np.random.choice(n, size, replace=False)\<close>: \<open>size\<close> distinct indices below \<open>n\<close>. Each
  raw number selects one of the indices not yet taken.
\<close>

fun pick_distinct :: "nat list \<Rightarrow> nat list \<Rightarrow> nat list" where
  "pick_distinct pool [] = []"
| "pick_distinct pool (r # rs) =
     (if pool = [] then []
      else (let p = pool ! (r mod length pool) in p # pick_distinct (remove1 p pool) rs))"

definition choice :: "(nat \<Rightarrow> nat) \<Rightarrow> nat \<Rightarrow> nat \<Rightarrow> error + int list" where
  "choice raw n sz =
     (if n < sz then Inl ValueError
      else Inr (map int (pick_distinct [0..<n] (map raw [0..<sz]))))"

text \<open>\<open>np.random.randn(n)\<close>: \<open>n\<close> reals, as drawn.\<close>

definition randn :: "(nat \<Rightarrow> real) \<Rightarrow> nat \<Rightarrow> vec" where
  "randn normal n = map normal [0..<n]"

text \<open>The generator as \<open>sgd_entropic_regularization\<close> consumes it.\<close>

record generator =
  normal_alpha :: "nat \<Rightarrow> real"
  normal_beta :: "nat \<Rightarrow> real"
  raw_alpha :: "nat \<Rightarrow> nat \<Rightarrow> nat"
  raw_beta :: "nat \<Rightarrow> nat \<Rightarrow> nat"

text \<open>
  \<open>xs[idx] = vals\<close> and \<open>xs[idx] += v\<close> for an array \<open>idx\<close> of indices: the entries read
  form a new array, \<open>v\<close> is added to it in place, and the result is stored position by
  position.
\<close>

definition put_at :: "vec \<Rightarrow> int list \<Rightarrow> vec \<Rightarrow> error + vec" where
  "put_at xs idx vals =
     ebind (sequence (map (py_index (length xs)) idx)) (\<lambda>ks.
     if length vals = length ks \<or> length vals = 1
     then Inr (fold (\<lambda>p ys. ys[ks ! p := bget vals p]) [0..<length ks] xs)
     else Inl ValueError)"

definition add_at :: "vec \<Rightarrow> int list \<Rightarrow> vec \<Rightarrow> error + vec" where
  "add_at xs idx v =
     ebind (take_idx xs idx) (\<lambda>old.
     ebind (inplace (+) old v) (\<lambda>new.
     put_at xs idx new))"

record sgd_state =
  cur_alpha :: vec
  sgd_cur_beta :: vec

text \<open>The bodies of the two loops: \<open>alternate\<close> true, and false.\<close>

definition sgd_iteration_alternate ::
  "matrix \<Rightarrow> real \<Rightarrow> nat \<Rightarrow> real \<Rightarrow> nat \<Rightarrow> nat \<Rightarrow> generator \<Rightarrow> nat \<Rightarrow> sgd_state
     \<Rightarrow> error + sgd_state" where
  "sgd_iteration_alternate M reg batch_size lr n_source n_target gen cur_iter st =
     (let k = sqrt (real (cur_iter + 1)) in
      ebind (choice (raw_alpha gen cur_iter) n_source batch_size) (\<lambda>batch_alpha.
      ebind (choice (raw_beta gen cur_iter) n_target batch_size) (\<lambda>batch_beta.
      ebind (batch_grad_dual_alpha M reg (cur_alpha st) (sgd_cur_beta st)
               batch_size batch_alpha batch_beta) (\<lambda>grad_F_alpha.
      ebind (add_at (cur_alpha st) batch_alpha (map (\<lambda>x. (lr / k) * x) grad_F_alpha))
        (\<lambda>cur_alpha'.
      ebind (batch_grad_dual_beta M reg cur_alpha' (sgd_cur_beta st)
               batch_size batch_alpha batch_beta) (\<lambda>grad_F_beta.
      ebind (add_at (sgd_cur_beta st) batch_beta (map (\<lambda>x. (lr / k) * x) grad_F_beta))
        (\<lambda>cur_beta'.
      Inr \<lparr>cur_alpha = cur_alpha', sgd_cur_beta = cur_beta'\<rparr>)))))))"

definition sgd_iteration_joint ::
  "matrix \<Rightarrow> real \<Rightarrow> nat \<Rightarrow> real \<Rightarrow> nat \<Rightarrow> nat \<Rightarrow> generator \<Rightarrow> nat \<Rightarrow> sgd_state
     \<Rightarrow> error + sgd_state" where
  "sgd_iteration_joint M reg batch_size lr n_source n_target gen cur_iter st =
     (let k = sqrt (real (cur_iter + 1)) in
      ebind (choice (raw_alpha gen cur_iter) n_source batch_size) (\<lambda>batch_alpha.
      ebind (choice (raw_beta gen cur_iter) n_target batch_size) (\<lambda>batch_beta.
      ebind (batch_grad_dual_alpha M reg (cur_alpha st) (sgd_cur_beta st)
               batch_size batch_alpha batch_beta) (\<lambda>grad_F_alpha.
      ebind (batch_grad_dual_beta M reg (cur_alpha st) (sgd_cur_beta st)
               batch_size batch_alpha batch_beta) (\<lambda>grad_F_beta.
      ebind (add_at (cur_alpha st) batch_alpha (map (\<lambda>x. (lr / k) * x) grad_F_alpha))
        (\<lambda>cur_alpha'.
      ebind (add_at (sgd_cur_beta st) batch_beta (map (\<lambda>x. (lr / k) * x) grad_F_beta))
        (\<lambda>cur_beta'.
      Inr \<lparr>cur_alpha = cur_alpha', sgd_cur_beta = cur_beta'\<rparr>)))))))"

definition sgd_init :: "matrix \<Rightarrow> generator \<Rightarrow> sgd_state" where
  "sgd_init M gen =
     (let n_source = n_rows M; n_target = n_cols M
      in \<lparr>cur_alpha = randn (normal_alpha gen) n_source,
          sgd_cur_beta = randn (normal_beta gen) n_target\<rparr>)"

definition sgd_loop ::
  "matrix \<Rightarrow> real \<Rightarrow> nat \<Rightarrow> real \<Rightarrow> bool \<Rightarrow> generator \<Rightarrow> nat \<Rightarrow> error + sgd_state" where
  "sgd_loop M reg batch_size lr alternate gen n =
     (if alternate
      then for_range n (sgd_iteration_alternate M reg batch_size lr (n_rows M) (n_cols M) gen)
             (sgd_init M gen)
      else for_range n (sgd_iteration_joint M reg batch_size lr (n_rows M) (n_cols M) gen)
             (sgd_init M gen))"

definition sgd_entropic_regularization ::
  "matrix \<Rightarrow> real \<Rightarrow> nat \<Rightarrow> nat \<Rightarrow> real \<Rightarrow> bool \<Rightarrow> generator \<Rightarrow> error + vec \<times> vec" where
  "sgd_entropic_regularization M reg batch_size numItermax lr alternate gen =
     ebind (sgd_loop M reg batch_size lr alternate gen numItermax) (\<lambda>st.
     Inr (cur_alpha st, sgd_cur_beta st))"

definition solve_dual_entropic ::
  "vec \<Rightarrow> vec \<Rightarrow> matrix \<Rightarrow> real \<Rightarrow> nat \<Rightarrow> nat \<Rightarrow> real \<Rightarrow> bool \<Rightarrow> generator \<Rightarrow> error + retval" where
  "solve_dual_entropic a b M reg batch_size numItermax lr log_flag gen =
     ebind (sgd_entropic_regularization M reg batch_size numItermax lr True gen)
       (\<lambda>(opt_alpha, opt_beta).
     ebind (broadcast2d (+) (col_vec opt_alpha) (row_vec opt_beta)) (\<lambda>s.
     ebind (broadcast2d (-) s M) (\<lambda>t.
     ebind (div_scalar2d t reg) (\<lambda>q.
     ebind (broadcast2d (*) (exp2d q) (col_vec a)) (\<lambda>u.
     ebind (broadcast2d (*) u (row_vec b)) (\<lambda>pi.
     if log_flag
     then Inr (RPlanLog pi (Map.empty(''alpha'' \<mapsto> opt_alpha, ''beta'' \<mapsto> opt_beta)))
     else Inr (RPlan pi)))))))"

section \<open>Reference definitions\<close>

text \<open>
  The quantities of the specification, written directly: they are what the functions
  above are compared with.
\<close>

text \<open>Row \<open>k\<close> of a matrix, the Gibbs weights \<open>exp(-(M[i,:] - beta)/reg) * b\<close> and their
  normalisation \<open>khi\<close>.\<close>

definition matrix_row :: "matrix \<Rightarrow> nat \<Rightarrow> vec" where
  "matrix_row M k = map (cell M k) [0..<n_cols M]"

definition gibbs_weights :: "vec \<Rightarrow> vec \<Rightarrow> real \<Rightarrow> vec \<Rightarrow> vec" where
  "gibbs_weights b Mi reg beta =
     map2 (\<lambda>r b_j. exp (- r / reg) * b_j) (map2 (-) Mi beta) b"

definition khi_of :: "vec \<Rightarrow> vec \<Rightarrow> real \<Rightarrow> vec \<Rightarrow> vec" where
  "khi_of b Mi reg beta =
     map (\<lambda>w. w / sum_list (gibbs_weights b Mi reg beta)) (gibbs_weights b Mi reg beta)"

text \<open>The value the c-transform stores for one row, with the shift by the minimum and
  without it.\<close>

definition c_transform_shifted :: "vec \<Rightarrow> vec \<Rightarrow> real \<Rightarrow> vec \<Rightarrow> real" where
  "c_transform_shifted b Mi reg beta =
     (let r = map2 (-) Mi beta; min_r = Min (set r)
      in min_r - reg * ln (sum_list (map2 (\<lambda>x b_j. exp (- (x - min_r) / reg) * b_j) r b)))"

definition c_transform_unshifted :: "vec \<Rightarrow> vec \<Rightarrow> real \<Rightarrow> vec \<Rightarrow> real" where
  "c_transform_unshifted b Mi reg beta = - reg * ln (sum_list (gibbs_weights b Mi reg beta))"

text \<open>The entries of the two batch gradients, as closed sums.\<close>

definition grad_alpha_entry :: "matrix \<Rightarrow> real \<Rightarrow> vec \<Rightarrow> vec \<Rightarrow> nat \<Rightarrow> nat list \<Rightarrow> nat \<Rightarrow> real" where
  "grad_alpha_entry M reg alpha beta batch_size batch_beta i =
     real batch_size - (\<Sum>j\<leftarrow>batch_beta. exp ((alpha ! i + beta ! j - cell M i j) / reg))"

definition grad_beta_entry :: "matrix \<Rightarrow> real \<Rightarrow> vec \<Rightarrow> vec \<Rightarrow> nat \<Rightarrow> nat list \<Rightarrow> nat \<Rightarrow> real" where
  "grad_beta_entry M reg alpha beta batch_size batch_alpha j =
     real batch_size - (\<Sum>i\<leftarrow>batch_alpha. exp ((alpha ! i + beta ! j - cell M i j) / reg))"

text \<open>
  The casings of a lower-case word: each letter as it is or in upper case.
\<close>

definition upper_char :: "char \<Rightarrow> char" where
  "upper_char c =
     (let n = (of_char c :: nat) in if 97 \<le> n \<and> n \<le> 122 then char_of (n - 32) else c)"

fun is_casing_of :: "string \<Rightarrow> string \<Rightarrow> bool" where
  "is_casing_of [] [] = True"
| "is_casing_of (c # cs) (d # ds) = ((c = d \<or> c = upper_char d) \<and> is_casing_of cs ds)"
| "is_casing_of _ _ = False"

text \<open>
  A probability vector of length \<open>n\<close>, the default learning rate \<open>1 / max(a / reg)\<close>, and
  the SAG iteration as the specification words it: with \<open>i\<close> the index sampled, the new
  gradient \<open>a[i] * (b - khi)\<close> replaces the stored one in the running sum and in the table,
  and \<open>beta\<close> moves by \<open>lr * (1 / ns)\<close> times the running sum.
\<close>

definition valid_measure :: "vec \<Rightarrow> nat \<Rightarrow> bool" where
  "valid_measure v n \<longleftrightarrow> length v = n \<and> (\<forall>x\<in>set v. 0 \<le> x) \<and> sum_list v = 1"

definition default_lr :: "vec \<Rightarrow> real \<Rightarrow> real" where
  "default_lr a reg = 1 / Max (set (map (\<lambda>x. x / reg) a))"

definition sag_step_spec :: "vec \<Rightarrow> vec \<Rightarrow> matrix \<Rightarrow> real \<Rightarrow> real \<Rightarrow> nat \<Rightarrow> sag_state \<Rightarrow> sag_state" where
  "sag_step_spec a b M reg lr i st =
     (let cur_coord_grad =
            map (\<lambda>x. a ! i * x) (map2 (-) b (khi_of b (matrix_row M i) reg (cur_beta st)));
          sum' = map2 (+) (sum_stored_gradient st)
                   (map2 (-) cur_coord_grad (stored_gradient st ! i))
      in \<lparr>cur_beta = map2 (+) (cur_beta st) (map (\<lambda>x. lr * (1 / real (n_rows M)) * x) sum'),
          stored_gradient = (stored_gradient st)[i := cur_coord_grad],
          sum_stored_gradient = sum'\<rparr>)"

primrec sag_run_spec ::
  "vec \<Rightarrow> vec \<Rightarrow> matrix \<Rightarrow> real \<Rightarrow> real \<Rightarrow> (nat \<Rightarrow> nat) \<Rightarrow> nat \<Rightarrow> sag_state" where
  "sag_run_spec a b M reg lr draws 0 = sag_init M"
| "sag_run_spec a b M reg lr draws (Suc n) =
     sag_step_spec a b M reg lr (draws n mod n_rows M) (sag_run_spec a b M reg lr draws n)"

text \<open>The shapes the SAG loop keeps: \<open>nt\<close> entries in each vector, \<open>ns\<close> rows.\<close>

definition sag_shape :: "matrix \<Rightarrow> sag_state \<Rightarrow> bool" where
  "sag_shape M st \<longleftrightarrow>
     length (cur_beta st) = n_cols M \<and> length (stored_gradient st) = n_rows M \<and>
     (\<forall>row\<in>set (stored_gradient st). length row = n_cols M) \<and>
     length (sum_stored_gradient st) = n_cols M"

text \<open>The sum of the rows of the gradient table, recomputed from scratch:
  \<open>np.sum(stored_gradient, axis=0)\<close>.\<close>

definition column_sums :: "nat \<Rightarrow> vec list \<Rightarrow> vec" where
  "column_sums nt rows = map (\<lambda>j. \<Sum>row\<leftarrow>rows. row ! j) [0..<nt]"

text \<open>
  The averaged SGD iteration as the specification words it, at the 1-indexed iteration
  \<open>k\<close> with \<open>i\<close> the index sampled: the gradient \<open>b - khi\<close> carries no weight \<open>a[i]\<close>, the
  step is \<open>lr / sqrt k\<close>, and the average is \<open>(1/k) * cur_beta + (1 - 1/k) * ave_beta\<close>.
\<close>

definition asgd_step_spec ::
  "vec \<Rightarrow> matrix \<Rightarrow> real \<Rightarrow> real \<Rightarrow> nat \<Rightarrow> nat \<Rightarrow> asgd_state \<Rightarrow> asgd_state" where
  "asgd_step_spec b M reg lr k i st =
     (let cur_coord_grad = map2 (-) b (khi_of b (matrix_row M i) reg (asgd_cur_beta st));
          cur' = map2 (+) (asgd_cur_beta st) (map (\<lambda>x. (lr / sqrt (real k)) * x) cur_coord_grad)
      in \<lparr>asgd_cur_beta = cur',
          ave_beta = map2 (+) (map (\<lambda>x. (1 / real k) * x) cur')
                       (map (\<lambda>x. (1 - 1 / real k) * x) (ave_beta st))\<rparr>)"

primrec asgd_run_spec ::
  "vec \<Rightarrow> matrix \<Rightarrow> real \<Rightarrow> real \<Rightarrow> (nat \<Rightarrow> nat) \<Rightarrow> nat \<Rightarrow> asgd_state" where
  "asgd_run_spec b M reg lr draws 0 = asgd_init M"
| "asgd_run_spec b M reg lr draws (Suc n) =
     asgd_step_spec b M reg lr (n + 1) (draws n mod n_rows M) (asgd_run_spec b M reg lr draws n)"

text \<open>The shapes the averaged SGD loop keeps.\<close>

definition asgd_shape :: "matrix \<Rightarrow> asgd_state \<Rightarrow> bool" where
  "asgd_shape M st \<longleftrightarrow> length (asgd_cur_beta st) = n_cols M \<and> length (ave_beta st) = n_cols M"

text \<open>The states whose vectors all sum to zero.\<close>

definition sag_zero_sum :: "sag_state \<Rightarrow> bool" where
  "sag_zero_sum st \<longleftrightarrow>
     sum_list (cur_beta st) = 0 \<and> sum_list (sum_stored_gradient st) = 0 \<and>
     (\<forall>row\<in>set (stored_gradient st). sum_list row = 0)"

definition asgd_zero_sum :: "asgd_state \<Rightarrow> bool" where
  "asgd_zero_sum st \<longleftrightarrow> sum_list (asgd_cur_beta st) = 0 \<and> sum_list (ave_beta st) = 0"

text \<open>
  The batched SGD iteration as the specification words it. \<open>batch_of\<close> is the batch the
  generator draws, \<open>scatter_add xs ks v\<close> is \<open>xs[ks] += v\<close>, and at the 1-indexed iteration
  \<open>k\<close> the step is \<open>lr / sqrt k\<close>. With \<open>alternate\<close> the gradient in \<open>beta\<close> is taken at the
  updated \<open>alpha\<close>, without it at the \<open>alpha\<close> the iteration started from.
\<close>

definition batch_of :: "(nat \<Rightarrow> nat) \<Rightarrow> nat \<Rightarrow> nat \<Rightarrow> nat list" where
  "batch_of raw n sz = pick_distinct [0..<n] (map raw [0..<sz])"

definition scatter_add :: "vec \<Rightarrow> nat list \<Rightarrow> vec \<Rightarrow> vec" where
  "scatter_add xs ks v = fold (\<lambda>p ys. ys[ks ! p := xs ! (ks ! p) + v ! p]) [0..<length ks] xs"

definition sgd_step_spec ::
  "matrix \<Rightarrow> real \<Rightarrow> nat \<Rightarrow> real \<Rightarrow> bool \<Rightarrow> nat \<Rightarrow> nat list \<Rightarrow> nat list \<Rightarrow> sgd_state
     \<Rightarrow> sgd_state" where
  "sgd_step_spec M reg batch_size lr alternate k batch_alpha batch_beta st =
     (let step = lr / sqrt (real k);
          grad_alpha = map (grad_alpha_entry M reg (cur_alpha st) (sgd_cur_beta st)
                              batch_size batch_beta) batch_alpha;
          alpha' = scatter_add (cur_alpha st) batch_alpha (map (\<lambda>x. step * x) grad_alpha);
          grad_beta = map (grad_beta_entry M reg (if alternate then alpha' else cur_alpha st)
                             (sgd_cur_beta st) batch_size batch_alpha) batch_beta
      in \<lparr>cur_alpha = alpha',
          sgd_cur_beta = scatter_add (sgd_cur_beta st) batch_beta (map (\<lambda>x. step * x) grad_beta)\<rparr>)"

primrec sgd_run_spec ::
  "matrix \<Rightarrow> real \<Rightarrow> nat \<Rightarrow> real \<Rightarrow> bool \<Rightarrow> generator \<Rightarrow> nat \<Rightarrow> sgd_state" where
  "sgd_run_spec M reg batch_size lr alternate gen 0 = sgd_init M gen"
| "sgd_run_spec M reg batch_size lr alternate gen (Suc n) =
     sgd_step_spec M reg batch_size lr alternate (n + 1)
       (batch_of (raw_alpha gen n) (n_rows M) batch_size)
       (batch_of (raw_beta gen n) (n_cols M) batch_size)
       (sgd_run_spec M reg batch_size lr alternate gen n)"

text \<open>A batch sampled without replacement, and the shapes the SGD loop keeps.\<close>

definition valid_batch :: "nat list \<Rightarrow> nat \<Rightarrow> nat \<Rightarrow> bool" where
  "valid_batch ks n sz \<longleftrightarrow> length ks = sz \<and> distinct ks \<and> (\<forall>k\<in>set ks. k < n)"

definition sgd_shape :: "matrix \<Rightarrow> sgd_state \<Rightarrow> bool" where
  "sgd_shape M st \<longleftrightarrow> length (cur_alpha st) = n_rows M \<and> length (sgd_cur_beta st) = n_cols M"

text \<open>
  The plan of the specification: a matrix of the shape of \<open>M\<close> whose entry \<open>(i, j)\<close> is
  \<open>exp((alpha[i] + beta[j] - M[i, j]) / reg) * a[i] * b[j]\<close>.
\<close>

definition is_gibbs_plan :: "matrix \<Rightarrow> vec \<Rightarrow> vec \<Rightarrow> matrix \<Rightarrow> real \<Rightarrow> vec \<Rightarrow> vec \<Rightarrow> bool" where
  "is_gibbs_plan plan a b M reg alpha beta \<longleftrightarrow>
     n_rows plan = n_rows M \<and> n_cols plan = n_cols M \<and>
     (\<forall>i<n_rows M. \<forall>j<n_cols M.
        cell plan i j = exp ((alpha ! i + beta ! j - cell M i j) / reg) * a ! i * b ! j)"

section \<open>Properties\<close>

subsection \<open>Sequencing, indexing and broadcasting\<close>

lemma ebind_Inr [simp]: "ebind (Inr x) f = f x"
  by (simp add: ebind_def)

lemma ebind_Inl [simp]: "ebind (Inl e) f = Inl e"
  by (simp add: ebind_def)

lemma ebind_eq_Inr: "ebind m f = Inr y \<longleftrightarrow> (\<exists>x. m = Inr x \<and> f x = Inr y)"
  by (cases m) simp_all

lemma py_index_nat [simp]: "k < n \<Longrightarrow> py_index n (int k) = Inr k"
  by (simp add: py_index_def)

lemma bdim_same [simp]: "bdim n n = Inr n"
  by (simp add: bdim_def)

lemma bget_nth [simp]: "k < length xs \<Longrightarrow> bget xs k = xs ! k"
  by (auto simp add: bget_def)

lemma broadcast2_same:
  "length xs = length ys \<Longrightarrow> broadcast2 f xs ys = Inr (map2 f xs ys)"
  unfolding broadcast2_def by (simp, rule nth_equalityI) simp_all

lemma inplace_same:
  "length ys = length xs \<Longrightarrow> inplace f xs ys = Inr (map2 f xs ys)"
  unfolding inplace_def by (simp, rule nth_equalityI) simp_all

lemma div_scalar_nonzero: "c \<noteq> 0 \<Longrightarrow> div_scalar xs c = Inr (map (\<lambda>x. x / c) xs)"
  by (simp add: div_scalar_def)

lemma row_at_nat: "k < n_rows M \<Longrightarrow> row_at M (int k) = Inr (matrix_row M k)"
  by (simp add: row_at_def matrix_row_def)

lemma length_matrix_row [simp]: "length (matrix_row M k) = n_cols M"
  by (simp add: matrix_row_def)

lemma length_gibbs_weights:
  "length Mi = length b \<Longrightarrow> length beta = length b \<Longrightarrow> length (gibbs_weights b Mi reg beta) = length b"
  by (simp add: gibbs_weights_def)

lemma coordinate_grad_closed:
  assumes k: "k < n_rows M" and lb: "length b = n_cols M" and lbeta: "length beta = n_cols M"
    and reg: "reg \<noteq> 0"
    and norm: "sum_list (gibbs_weights b (matrix_row M k) reg beta) \<noteq> 0"
  shows "coordinate_grad_semi_dual b M reg beta (int k) =
           Inr (map2 (-) b (khi_of b (matrix_row M k) reg beta))"
proof -
  define Mi where "Mi = matrix_row M k"
  define r where "r = map2 (-) Mi beta"
  define q where "q = map (\<lambda>x. x / reg) (map uminus r)"
  define w where "w = gibbs_weights b Mi reg beta"
  have s1: "row_at M (int k) = Inr Mi"
    using k by (simp add: row_at_nat Mi_def)
  have s2: "broadcast2 (-) Mi beta = Inr r"
    using lbeta by (simp add: broadcast2_same Mi_def r_def)
  have s3: "div_scalar (map uminus r) reg = Inr q"
    using reg by (simp add: div_scalar_nonzero q_def)
  have "length (map exp q) = length b"
    using lb lbeta by (simp add: q_def r_def Mi_def)
  then have "broadcast2 (*) (map exp q) b = Inr (map2 (*) (map exp q) b)"
    by (rule broadcast2_same)
  moreover have "map2 (*) (map exp q) b = w"
  proof -
    have "\<And>x y. exp (- (x - y) / reg) = exp ((y - x) / reg)"
      by simp
    then show ?thesis
      by (simp add: w_def q_def r_def gibbs_weights_def zip_map1 split_def del: minus_diff_eq)
  qed
  ultimately have s4: "broadcast2 (*) (map exp q) b = Inr w"
    by simp
  have s5: "div_scalar w (sum_list w) = Inr (khi_of b Mi reg beta)"
    using norm by (simp add: div_scalar_nonzero khi_of_def w_def Mi_def)
  have "length b = length (khi_of b Mi reg beta)"
    using lb lbeta by (simp add: khi_of_def length_gibbs_weights Mi_def)
  then have s6: "broadcast2 (-) b (khi_of b Mi reg beta) =
      Inr (map2 (-) b (khi_of b Mi reg beta))"
    by (rule broadcast2_same)
  show ?thesis
    unfolding coordinate_grad_semi_dual_def
    by (simp only: s1 s2 s3 s4 s5 s6 ebind_Inr Mi_def [symmetric])
qed

lemma sum_list_map_divide: "sum_list (map (\<lambda>w. w / (c::real)) ws) = sum_list ws / c"
  by (induction ws) (simp_all add: add_divide_distrib)

lemma gibbs_weights_nonneg:
  "\<forall>x\<in>set b. 0 \<le> x \<Longrightarrow> \<forall>w\<in>set (gibbs_weights b Mi reg beta). 0 \<le> w"
  by (auto simp add: gibbs_weights_def dest!: set_zip_rightD)

lemma sum_list_map2_minus:
  "length xs = length ys \<Longrightarrow> sum_list (map2 (-) xs ys) = sum_list xs - sum_list (ys::real list)"
  by (induction xs ys rule: list_induct2) simp_all


subsection \<open>The coordinate gradient\<close>

lemma khi_of_prob:
  assumes "\<forall>x\<in>set b. 0 \<le> x" and "0 < sum_list (gibbs_weights b Mi reg beta)"
  shows "(\<forall>x\<in>set (khi_of b Mi reg beta). 0 \<le> x) \<and> sum_list (khi_of b Mi reg beta) = 1"
proof -
  have "\<forall>w\<in>set (gibbs_weights b Mi reg beta). 0 \<le> w"
    using assms(1) by (rule gibbs_weights_nonneg)
  then have "\<forall>x\<in>set (khi_of b Mi reg beta). 0 \<le> x"
    using assms(2) by (auto simp add: khi_of_def)
  moreover have "sum_list (khi_of b Mi reg beta) = 1"
    using assms(2) by (simp add: khi_of_def sum_list_map_divide)
  ultimately show ?thesis by simp
qed

text \<open>
  Claim C1. For a source index \<open>k\<close> below \<open>ns\<close>, a cost matrix of shape \<open>ns \<times> nt\<close>,
  and \<open>b\<close> and \<open>beta\<close> of length \<open>nt\<close>, \<open>coordinate_grad_semi_dual\<close> returns \<open>b - khi\<close>,
  where \<open>khi\<close> is the vector \<open>exp(-(M[k,:] - beta)/reg) * b\<close> divided by its sum, whenever
  that sum and \<open>reg\<close> are not zero. The result has the length of \<open>b\<close>. When \<open>b\<close> is
  non-negative and the sum is positive, \<open>khi\<close> is non-negative and sums to 1.
\<close>

theorem coordinate_grad_semi_dual_correct:
  assumes "k < n_rows M" and "length b = n_cols M" and "length beta = n_cols M"
    and "reg \<noteq> 0"
    and "sum_list (gibbs_weights b (matrix_row M k) reg beta) \<noteq> 0"
  shows "coordinate_grad_semi_dual b M reg beta (int k) =
           Inr (map2 (-) b (khi_of b (matrix_row M k) reg beta))
         \<and> length (map2 (-) b (khi_of b (matrix_row M k) reg beta)) = length b
         \<and> ((\<forall>x\<in>set b. 0 \<le> x) \<and> 0 < sum_list (gibbs_weights b (matrix_row M k) reg beta)
              \<longrightarrow> (\<forall>x\<in>set (khi_of b (matrix_row M k) reg beta). 0 \<le> x)
                \<and> sum_list (khi_of b (matrix_row M k) reg beta) = 1)"
proof -
  have "length (khi_of b (matrix_row M k) reg beta) = length b"
    using assms(2,3) by (simp add: khi_of_def length_gibbs_weights)
  then show ?thesis
    using coordinate_grad_closed [OF assms] khi_of_prob [of b "matrix_row M k" reg beta]
    by simp
qed

theorem coordinate_grad_semi_dual_correct_witness:
  "coordinate_grad_semi_dual [1/2, 1/2]
     \<lparr>n_rows = 2, n_cols = 2, cell = (\<lambda>i j. if i = j then 0 else ln 2)\<rparr> 1 [0, 0] 0
   = Inr [- (1/6), 1/6]
   \<and> khi_of [1/2, 1/2] [0, ln 2] 1 [0, 0] = [2/3, 1/3]
   \<and> sum_list (khi_of [1/2, 1/2] [0, ln 2] 1 [0, 0]) = 1"
  using coordinate_grad_semi_dual_correct [of 0
      "\<lparr>n_rows = 2, n_cols = 2, cell = (\<lambda>i j. if i = j then 0 else ln 2)\<rparr>"
      "[1/2, 1/2]" "[0, 0]" 1]
  by (simp add: matrix_row_def khi_of_def gibbs_weights_def exp_minus upt_rec)

subsection \<open>The c-transform\<close>

lemma for_range_update_upto:
  assumes body: "\<And>i xs. i < n \<Longrightarrow> body i xs = Inr (xs[i := v i])"
  shows "m \<le> n \<Longrightarrow>
    for_range m body xs = Inr (map (\<lambda>i. if i < m then v i else xs ! i) [0..<length xs])"
proof (induction m)
  case 0
  show ?case by (simp add: map_nth)
next
  case (Suc m)
  then have m: "m < n" by simp
  have "(map (\<lambda>i. if i < m then v i else xs ! i) [0..<length xs])[m := v m] =
        map (\<lambda>i. if i < Suc m then v i else xs ! i) [0..<length xs]"
    by (rule nth_equalityI) (auto simp add: nth_list_update less_Suc_eq)
  with Suc m show ?case
    by (simp add: body)
qed

lemma for_range_fill:
  assumes "\<And>i xs. i < n \<Longrightarrow> body i xs = Inr (xs[i := v i])"
  shows "for_range n body (replicate n z) = Inr (map v [0..<n])"
  using for_range_update_upto [of n body v n "replicate n z"] assms by simp

lemma sum_list_shift:
  fixes reg :: real
  assumes "reg \<noteq> 0"
  shows "sum_list (map2 (\<lambda>x b_j. exp (- (x - m) / reg) * b_j) r b) =
         exp (m / reg) * sum_list (map2 (\<lambda>x b_j. exp (- x / reg) * b_j) r b)"
proof -
  have "\<And>x. exp (- (x - m) / reg) = exp (m / reg) * exp (- x / reg)"
    by (simp add: exp_add [symmetric] diff_divide_distrib del: minus_diff_eq)
  then have "map2 (\<lambda>x b_j. exp (- (x - m) / reg) * b_j) r b =
      map (\<lambda>p. exp (m / reg) * (case p of (x, b_j) \<Rightarrow> exp (- x / reg) * b_j)) (zip r b)"
    by (simp add: split_def mult.assoc)
  then show ?thesis
    by (simp only: sum_list_const_mult)
qed

lemma gibbs_weights_alt:
  "gibbs_weights b Mi reg beta = map2 (\<lambda>x b_j. exp (- x / reg) * b_j) (map2 (-) Mi beta) b"
  by (simp add: gibbs_weights_def)

lemma c_transform_shift_eq:
  assumes "reg \<noteq> 0" and "0 < sum_list (gibbs_weights b Mi reg beta)"
  shows "c_transform_shifted b Mi reg beta = c_transform_unshifted b Mi reg beta"
proof -
  define r where "r = map2 (-) Mi beta"
  define m where "m = Min (set r)"
  define S where "S = sum_list (map2 (\<lambda>x b_j. exp (- x / reg) * b_j) r b)"
  have S: "0 < S"
    using assms(2) by (simp add: S_def r_def gibbs_weights_alt)
  have "ln (exp (m / reg) * S) = m / reg + ln S"
    using S by (simp add: ln_mult)
  then have "m - reg * ln (exp (m / reg) * S) = - reg * ln S"
    using assms(1) by (simp add: algebra_simps)
  then show ?thesis
    unfolding c_transform_shifted_def c_transform_unshifted_def Let_def gibbs_weights_alt
      sum_list_shift [OF assms(1)] r_def [symmetric] m_def [symmetric] S_def [symmetric]
    by simp
qed

lemma shifted_sum_pos:
  assumes "reg \<noteq> 0" and "0 < sum_list (gibbs_weights b Mi reg beta)"
  shows "0 < sum_list (map2 (\<lambda>x b_j. exp (- (x - m) / reg) * b_j) (map2 (-) Mi beta) b)"
  using assms(2) unfolding sum_list_shift [OF assms(1)] gibbs_weights_alt
  by simp

lemma c_transform_iteration_closed:
  assumes k: "k < n_rows M" and lb: "length b = n_cols M" and lbeta: "length beta = n_cols M"
    and reg: "reg \<noteq> 0"
    and pos: "0 < sum_list (gibbs_weights b (matrix_row M k) reg beta)"
  shows "c_transform_iteration b M reg beta k alpha =
           Inr (alpha[k := c_transform_shifted b (matrix_row M k) reg beta])"
proof -
  define Mi where "Mi = matrix_row M k"
  define r where "r = map2 (-) Mi beta"
  define min_r where "min_r = Min (set r)"
  define q where "q = map (\<lambda>x. x / reg) (map (\<lambda>x. - (x - min_r)) r)"
  define w where "w = map2 (\<lambda>x b_j. exp (- (x - min_r) / reg) * b_j) r b"
  have "gibbs_weights b Mi reg beta \<noteq> []"
    using pos by (auto simp add: Mi_def)
  then have ne: "r \<noteq> []"
    by (auto simp add: gibbs_weights_def r_def)
  have s1: "row_at M (int k) = Inr Mi"
    using k by (simp add: row_at_nat Mi_def)
  have s2: "broadcast2 (-) Mi beta = Inr r"
    using lbeta by (simp add: broadcast2_same Mi_def r_def)
  have s3: "np_min r = Inr min_r"
    using ne by (simp add: np_min_def min_r_def)
  have s4: "div_scalar (map (\<lambda>x. - (x - min_r)) r) reg = Inr q"
    using reg by (simp add: div_scalar_nonzero q_def)
  have "length (map exp q) = length b"
    using lb lbeta by (simp add: q_def r_def Mi_def)
  then have "broadcast2 (*) (map exp q) b = Inr (map2 (*) (map exp q) b)"
    by (rule broadcast2_same)
  moreover have "map2 (*) (map exp q) b = w"
    by (simp add: w_def q_def zip_map1 split_def)
  ultimately have s5: "broadcast2 (*) (map exp q) b = Inr w"
    by simp
  have "0 < sum_list w"
    unfolding w_def r_def Mi_def using reg pos by (rule shifted_sum_pos)
  then have s6: "np_log (sum_list w) = Inr (ln (sum_list w))"
    by (simp add: np_log_def)
  have "min_r - reg * ln (sum_list w) = c_transform_shifted b Mi reg beta"
    by (simp add: c_transform_shifted_def Let_def w_def min_r_def r_def)
  then show ?thesis
    unfolding c_transform_iteration_def
    by (simp only: s1 s2 s3 s4 s5 s6 ebind_Inr Mi_def [symmetric])
qed

lemma c_transform_entropic_closed:
  assumes "length b = n_cols M" and "length beta = n_cols M" and "reg \<noteq> 0"
    and "\<forall>i<n_rows M. 0 < sum_list (gibbs_weights b (matrix_row M i) reg beta)"
  shows "c_transform_entropic b M reg beta =
           Inr (map (\<lambda>i. c_transform_shifted b (matrix_row M i) reg beta) [0..<n_rows M])"
  unfolding c_transform_entropic_def Let_def
  by (rule for_range_fill) (use assms in \<open>simp add: c_transform_iteration_closed\<close>)

text \<open>
  Claim C5. For \<open>b\<close> and \<open>beta\<close> of length \<open>nt\<close>, \<open>reg\<close> not zero and every row's
  weighted sum \<open>sum(exp(-(M[i,:] - beta)/reg) * b)\<close> positive, \<open>c_transform_entropic\<close>
  returns a vector of length \<open>ns\<close> whose entry \<open>i\<close> is
  \<open>min_r - reg * log(sum(exp(-(r - min_r)/reg) * b))\<close> with \<open>r = M[i,:] - beta\<close> and
  \<open>min_r = min(r)\<close>, and this value equals the unshifted \<open>-reg * log(sum(exp(-r/reg) * b))\<close>.
\<close>

theorem c_transform_entropic_correct:
  assumes "length b = n_cols M" and "length beta = n_cols M" and "reg \<noteq> 0"
    and "\<forall>i<n_rows M. 0 < sum_list (gibbs_weights b (matrix_row M i) reg beta)"
  shows "c_transform_entropic b M reg beta =
           Inr (map (\<lambda>i. c_transform_shifted b (matrix_row M i) reg beta) [0..<n_rows M])
         \<and> (\<forall>i<n_rows M. c_transform_shifted b (matrix_row M i) reg beta =
                           c_transform_unshifted b (matrix_row M i) reg beta)"
proof -
  have "c_transform_entropic b M reg beta =
      Inr (map (\<lambda>i. c_transform_shifted b (matrix_row M i) reg beta) [0..<n_rows M])"
    using assms by (rule c_transform_entropic_closed)
  then show ?thesis
    using assms by (simp add: c_transform_shift_eq)
qed

theorem c_transform_entropic_correct_witness:
  "c_transform_entropic [1/2, 1/2]
     \<lparr>n_rows = 2, n_cols = 2, cell = (\<lambda>i j. if i = j then 0 else ln 2)\<rparr> 1 [0, 0]
   = Inr [- ln (3/4), - ln (3/4)]"
proof -
  let ?M = "\<lparr>n_rows = 2, n_cols = 2, cell = (\<lambda>i j. if i = j then 0 else ln 2)\<rparr>"
  have rows: "matrix_row ?M 0 = [0, ln 2]" "matrix_row ?M (Suc 0) = [ln 2, 0]"
    by (simp_all add: matrix_row_def upt_rec)
  have pos: "\<forall>i<n_rows ?M. 0 < sum_list (gibbs_weights [1/2, 1/2] (matrix_row ?M i) 1 [0, 0])"
    by (simp add: less_2_cases_iff rows gibbs_weights_def exp_minus)
  have "c_transform_unshifted [1/2, 1/2] [0, ln 2] 1 [0, 0] = - ln (3/4)"
    "c_transform_unshifted [1/2, 1/2] [ln 2, 0] 1 [0, 0] = - ln (3/4)"
    by (simp_all add: c_transform_unshifted_def gibbs_weights_def exp_minus)
  then show ?thesis
    using c_transform_entropic_correct [of "[1/2, 1/2]" ?M "[0, 0]" 1, OF _ _ _ pos]
    by (simp add: less_2_cases_iff rows upt_rec)
qed

subsection \<open>The batch gradients of the dual problem\<close>

lemma sequence_map_Inr:
  "\<forall>x\<in>set xs. f x = Inr (g x) \<Longrightarrow> sequence (map f xs) = Inr (map g xs)"
  by (induction xs) simp_all

lemma getitem_nat: "k < length xs \<Longrightarrow> getitem xs (int k) = Inr (xs ! k)"
  by (simp add: getitem_def)

lemma take_idx_nat:
  "\<forall>k\<in>set ks. k < length xs \<Longrightarrow> take_idx xs (map int ks) = Inr (map ((!) xs) ks)"
  unfolding take_idx_def map_map
  by (rule sequence_map_Inr) (simp add: getitem_nat)

lemma cells_in_col_nat:
  "\<forall>i\<in>set is. i < n_rows M \<Longrightarrow> j < n_cols M \<Longrightarrow>
     cells_in_col M (map int is) (int j) = Inr (map (\<lambda>i. cell M i j) is)"
  unfolding cells_in_col_def map_map
  by (simp add: sequence_map_Inr)

lemma cells_in_row_nat:
  "i < n_rows M \<Longrightarrow> \<forall>j\<in>set js. j < n_cols M \<Longrightarrow>
     cells_in_row M (int i) (map int js) = Inr (map (\<lambda>j. cell M i j) js)"
  unfolding cells_in_row_def map_map
  by (simp add: sequence_map_Inr)

lemma for_each_subtract:
  fixes g :: vec and e :: "'a \<Rightarrow> nat \<Rightarrow> real"
  assumes body: "\<And>j g. j \<in> set js \<Longrightarrow> length g = length is \<Longrightarrow>
      body (int j) g = Inr (map2 (-) g (map (\<lambda>i. e i j) is))"
  shows "length g = length is \<Longrightarrow>
    for_each (map int js) body g = Inr (map2 (\<lambda>x i. x - (\<Sum>j\<leftarrow>js. e i j)) g is)"
  using body
proof (induction js arbitrary: g)
  case Nil
  have "map2 (\<lambda>x i. x - (\<Sum>j\<leftarrow>[]. e i j)) g is = g"
    using Nil.prems(1) by (intro nth_equalityI) simp_all
  then show ?case by simp
next
  case (Cons j js)
  have "map2 (\<lambda>x i. x - (\<Sum>j\<leftarrow>js. e i j)) (map2 (-) g (map (\<lambda>i. e i j) is)) is =
        map2 (\<lambda>x i. x - (\<Sum>j\<leftarrow>j # js. e i j)) g is"
    using Cons.prems(1) by (intro nth_equalityI) (simp_all add: algebra_simps)
  moreover have "for_each (map int js) body (map2 (-) g (map (\<lambda>i. e i j) is)) =
      Inr (map2 (\<lambda>x i. x - (\<Sum>j\<leftarrow>js. e i j)) (map2 (-) g (map (\<lambda>i. e i j) is)) is)"
    using Cons.prems by (intro Cons.IH) simp_all
  ultimately show ?case
    using Cons.prems by simp
qed

lemma map2_replicate_left:
  "length ys = n \<Longrightarrow> map2 f (replicate n c) ys = map (f c) ys"
  by (rule nth_equalityI) simp_all

lemma batch_grad_dual_alpha_closed:
  assumes la: "length alpha = n_rows M" and lb: "length beta = n_cols M" and reg: "reg \<noteq> 0"
    and bs: "length batch_alpha = batch_size"
    and ia: "\<forall>i\<in>set batch_alpha. i < n_rows M" and ib: "\<forall>j\<in>set batch_beta. j < n_cols M"
  shows "batch_grad_dual_alpha M reg alpha beta batch_size (map int batch_alpha) (map int batch_beta) =
           Inr (map (grad_alpha_entry M reg alpha beta batch_size batch_beta) batch_alpha)"
proof -
  let ?e = "\<lambda>i j. exp ((alpha ! i + beta ! j - cell M i j) / reg)"
  have "for_each (map int batch_beta)
          (\<lambda>j grad_alpha.
             ebind (take_idx alpha (map int batch_alpha)) (\<lambda>alpha_b.
             ebind (getitem beta j) (\<lambda>beta_j.
             ebind (cells_in_col M (map int batch_alpha) j) (\<lambda>M_bj.
             ebind (broadcast2 (-) (map (\<lambda>x. x + beta_j) alpha_b) M_bj) (\<lambda>t.
             ebind (div_scalar t reg) (\<lambda>q.
             inplace (-) grad_alpha (map exp q)))))))
          (replicate batch_size (real batch_size)) =
        Inr (map2 (\<lambda>x i. x - (\<Sum>j\<leftarrow>batch_beta. ?e i j))
               (replicate batch_size (real batch_size)) batch_alpha)"
  proof (rule for_each_subtract)
    show "length (replicate batch_size (real batch_size)) = length batch_alpha"
      using bs by simp
  next
    fix j and g :: vec
    assume j: "j \<in> set batch_beta" and g: "length g = length batch_alpha"
    have s1: "take_idx alpha (map int batch_alpha) = Inr (map ((!) alpha) batch_alpha)"
      using ia la by (simp add: take_idx_nat)
    have s2: "getitem beta (int j) = Inr (beta ! j)"
      using ib lb j by (simp add: getitem_nat)
    have s3: "cells_in_col M (map int batch_alpha) (int j) = Inr (map (\<lambda>i. cell M i j) batch_alpha)"
      using ia ib j by (simp add: cells_in_col_nat)
    have s4: "broadcast2 (-) (map (\<lambda>x. x + beta ! j) (map ((!) alpha) batch_alpha))
                (map (\<lambda>i. cell M i j) batch_alpha) =
              Inr (map (\<lambda>i. alpha ! i + beta ! j - cell M i j) batch_alpha)"
      by (simp add: broadcast2_same map2_map_map)
    have s5: "div_scalar (map (\<lambda>i. alpha ! i + beta ! j - cell M i j) batch_alpha) reg =
              Inr (map (\<lambda>i. (alpha ! i + beta ! j - cell M i j) / reg) batch_alpha)"
      using reg by (simp add: div_scalar_nonzero)
    have s6: "inplace (-) g (map exp (map (\<lambda>i. (alpha ! i + beta ! j - cell M i j) / reg) batch_alpha)) =
              Inr (map2 (-) g (map (\<lambda>i. ?e i j) batch_alpha))"
      using g by (simp add: inplace_same comp_def)
    show "ebind (take_idx alpha (map int batch_alpha)) (\<lambda>alpha_b.
             ebind (getitem beta (int j)) (\<lambda>beta_j.
             ebind (cells_in_col M (map int batch_alpha) (int j)) (\<lambda>M_bj.
             ebind (broadcast2 (-) (map (\<lambda>x. x + beta_j) alpha_b) M_bj) (\<lambda>t.
             ebind (div_scalar t reg) (\<lambda>q.
             inplace (-) g (map exp q)))))) =
          Inr (map2 (-) g (map (\<lambda>i. ?e i j) batch_alpha))"
      by (simp only: s1 s2 s3 s4 s5 s6 ebind_Inr)
  qed
  then show ?thesis
    using bs
    by (simp add: batch_grad_dual_alpha_def map2_replicate_left grad_alpha_entry_def [abs_def])
qed

lemma batch_grad_dual_beta_closed:
  assumes la: "length alpha = n_rows M" and lb: "length beta = n_cols M" and reg: "reg \<noteq> 0"
    and bs: "length batch_beta = batch_size"
    and ia: "\<forall>i\<in>set batch_alpha. i < n_rows M" and ib: "\<forall>j\<in>set batch_beta. j < n_cols M"
  shows "batch_grad_dual_beta M reg alpha beta batch_size (map int batch_alpha) (map int batch_beta) =
           Inr (map (grad_beta_entry M reg alpha beta batch_size batch_alpha) batch_beta)"
proof -
  let ?e = "\<lambda>j i. exp ((alpha ! i + beta ! j - cell M i j) / reg)"
  have "for_each (map int batch_alpha)
          (\<lambda>i grad_beta.
             ebind (getitem alpha i) (\<lambda>alpha_i.
             ebind (take_idx beta (map int batch_beta)) (\<lambda>beta_b.
             ebind (cells_in_row M i (map int batch_beta)) (\<lambda>M_ib.
             ebind (broadcast2 (-) (map (\<lambda>x. alpha_i + x) beta_b) M_ib) (\<lambda>t.
             ebind (div_scalar t reg) (\<lambda>q.
             inplace (-) grad_beta (map exp q)))))))
          (replicate batch_size (real batch_size)) =
        Inr (map2 (\<lambda>x j. x - (\<Sum>i\<leftarrow>batch_alpha. ?e j i))
               (replicate batch_size (real batch_size)) batch_beta)"
  proof (rule for_each_subtract)
    show "length (replicate batch_size (real batch_size)) = length batch_beta"
      using bs by simp
  next
    fix i and g :: vec
    assume i: "i \<in> set batch_alpha" and g: "length g = length batch_beta"
    have s1: "getitem alpha (int i) = Inr (alpha ! i)"
      using ia la i by (simp add: getitem_nat)
    have s2: "take_idx beta (map int batch_beta) = Inr (map ((!) beta) batch_beta)"
      using ib lb by (simp add: take_idx_nat)
    have s3: "cells_in_row M (int i) (map int batch_beta) = Inr (map (\<lambda>j. cell M i j) batch_beta)"
      using ia ib i by (simp add: cells_in_row_nat)
    have s4: "broadcast2 (-) (map (\<lambda>x. alpha ! i + x) (map ((!) beta) batch_beta))
                (map (\<lambda>j. cell M i j) batch_beta) =
              Inr (map (\<lambda>j. alpha ! i + beta ! j - cell M i j) batch_beta)"
      by (simp add: broadcast2_same map2_map_map)
    have s5: "div_scalar (map (\<lambda>j. alpha ! i + beta ! j - cell M i j) batch_beta) reg =
              Inr (map (\<lambda>j. (alpha ! i + beta ! j - cell M i j) / reg) batch_beta)"
      using reg by (simp add: div_scalar_nonzero)
    have s6: "inplace (-) g (map exp (map (\<lambda>j. (alpha ! i + beta ! j - cell M i j) / reg) batch_beta)) =
              Inr (map2 (-) g (map (\<lambda>j. ?e j i) batch_beta))"
      using g by (simp add: inplace_same comp_def)
    show "ebind (getitem alpha (int i)) (\<lambda>alpha_i.
             ebind (take_idx beta (map int batch_beta)) (\<lambda>beta_b.
             ebind (cells_in_row M (int i) (map int batch_beta)) (\<lambda>M_ib.
             ebind (broadcast2 (-) (map (\<lambda>x. alpha_i + x) beta_b) M_ib) (\<lambda>t.
             ebind (div_scalar t reg) (\<lambda>q.
             inplace (-) g (map exp q)))))) =
          Inr (map2 (-) g (map (\<lambda>j. ?e j i) batch_beta))"
      by (simp only: s1 s2 s3 s4 s5 s6 ebind_Inr)
  qed
  then show ?thesis
    using bs
    by (simp add: batch_grad_dual_beta_def map2_replicate_left grad_beta_entry_def [abs_def])
qed

text \<open>
  Claim C7. For batches of \<open>batch_size\<close> valid indices, \<open>alpha\<close> of length \<open>ns\<close>, \<open>beta\<close> of
  length \<open>nt\<close> and \<open>reg\<close> not zero, \<open>batch_grad_dual_alpha\<close> returns a vector of length
  \<open>batch_size\<close> whose entry \<open>p\<close> is \<open>batch_size\<close> minus the sum over \<open>j\<close> in \<open>batch_beta\<close> of
  \<open>exp((alpha[i] + beta[j] - M[i, j]) / reg)\<close> with \<open>i = batch_alpha[p]\<close>, and
  \<open>batch_grad_dual_beta\<close> is the mirror: entry \<open>p\<close> is \<open>batch_size\<close> minus the sum over \<open>i\<close>
  in \<open>batch_alpha\<close> of the same exponential with \<open>j = batch_beta[p]\<close>.
\<close>

theorem batch_grad_dual_correct:
  assumes "length alpha = n_rows M" and "length beta = n_cols M" and "reg \<noteq> 0"
    and "length batch_alpha = batch_size" and "length batch_beta = batch_size"
    and "\<forall>i\<in>set batch_alpha. i < n_rows M" and "\<forall>j\<in>set batch_beta. j < n_cols M"
  shows "batch_grad_dual_alpha M reg alpha beta batch_size
             (map int batch_alpha) (map int batch_beta) =
           Inr (map (\<lambda>i. real batch_size -
                     (\<Sum>j\<leftarrow>batch_beta. exp ((alpha ! i + beta ! j - cell M i j) / reg)))
                  batch_alpha)
       \<and> batch_grad_dual_beta M reg alpha beta batch_size
             (map int batch_alpha) (map int batch_beta) =
           Inr (map (\<lambda>j. real batch_size -
                     (\<Sum>i\<leftarrow>batch_alpha. exp ((alpha ! i + beta ! j - cell M i j) / reg)))
                  batch_beta)
       \<and> length (map (grad_alpha_entry M reg alpha beta batch_size batch_beta) batch_alpha)
           = batch_size
       \<and> length (map (grad_beta_entry M reg alpha beta batch_size batch_alpha) batch_beta)
           = batch_size"
  using assms
  by (simp add: batch_grad_dual_alpha_closed batch_grad_dual_beta_closed
      grad_alpha_entry_def [abs_def] grad_beta_entry_def [abs_def])

theorem batch_grad_dual_correct_witness:
  "batch_grad_dual_alpha \<lparr>n_rows = 2, n_cols = 2, cell = (\<lambda>i j. if i = j then 0 else ln 2)\<rparr> 1
      [0, 0] [0, 0] 2 [1, 0] [0, 1] = Inr [1 / 2, 1 / 2]
   \<and> batch_grad_dual_beta \<lparr>n_rows = 2, n_cols = 2, cell = (\<lambda>i j. if i = j then 0 else ln 2)\<rparr> 1
      [0, 0] [0, 0] 2 [1, 0] [0, 1] = Inr [1 / 2, 1 / 2]"
  using batch_grad_dual_correct [of "[0, 0]"
      "\<lparr>n_rows = 2, n_cols = 2, cell = (\<lambda>i j. if i = j then 0 else ln 2)\<rparr>" "[0, 0]" 1
      "[1, 0]" 2 "[0, 1]"]
  by (simp add: exp_minus)

subsection \<open>The dispatch on the method name\<close>

lemma lower_char_eq_iff:
  assumes "97 \<le> (of_char d :: nat)" and "(of_char d :: nat) \<le> 122"
  shows "lower_char c = d \<longleftrightarrow> c = d \<or> c = upper_char d"
proof -
  define nc where "nc = (of_char c :: nat)"
  define nd where "nd = (of_char d :: nat)"
  have c: "c = char_of nc" and d: "d = char_of nd"
    by (simp_all add: nc_def nd_def)
  have bounds: "nc < 256" "nd < 256" "97 \<le> nd" "nd \<le> 122"
    using assms by (simp_all add: nc_def nd_def)
  have low: "lower_char c = (if 65 \<le> nc \<and> nc \<le> 90 then char_of (nc + 32) else char_of nc)"
    by (simp add: lower_char_def nc_def Let_def)
  have up: "upper_char d = char_of (nd - 32)"
    using assms by (simp add: upper_char_def nd_def Let_def)
  have "(if 65 \<le> nc \<and> nc \<le> 90 then (nc + 32) mod 256 else nc mod 256) = nd mod 256
        \<longleftrightarrow> nc mod 256 = nd mod 256 \<or> nc mod 256 = (nd - 32) mod 256"
    using bounds by auto
  then show ?thesis
    unfolding low up unfolding c d
    by (simp only: char_of_quasi_inj if_distrib [of "\<lambda>x. x = _"] split: if_splits) 
qed

lemma lower_eq_iff:
  "\<forall>d\<in>set w. 97 \<le> (of_char d :: nat) \<and> (of_char d :: nat) \<le> 122 \<Longrightarrow>
     lower m = w \<longleftrightarrow> is_casing_of m w"
proof (induction m arbitrary: w)
  case Nil
  show ?case by (cases w) (simp_all add: lower_def)
next
  case (Cons c cs)
  show ?case
  proof (cases w)
    case Nil
    then show ?thesis by (simp add: lower_def)
  next
    case (Cons d ds)
    have "lower cs = ds \<longleftrightarrow> is_casing_of cs ds"
      using Cons.prems Cons by (intro Cons.IH) simp
    moreover have "lower_char c = d \<longleftrightarrow> c = d \<or> c = upper_char d"
      using Cons.prems Cons by (intro lower_char_eq_iff) simp_all
    ultimately show ?thesis
      using Cons by (simp add: lower_def)
  qed
qed

lemma lower_sag: "lower m = ''sag'' \<longleftrightarrow> is_casing_of m ''sag''"
  by (rule lower_eq_iff) simp

lemma lower_asgd: "lower m = ''asgd'' \<longleftrightarrow> is_casing_of m ''asgd''"
  by (rule lower_eq_iff) simp

text \<open>
  Claim C6. \<open>solve_semi_dual_entropic\<close> compares the method name without regard to case:
  every casing of \<open>sag\<close> runs \<open>sag_entropic_transport\<close> and every casing of \<open>asgd\<close> runs
  \<open>averaged_sgd_entropic_transport\<close>, each followed by the reconstruction of the plan. For
  every other name nothing is raised: one line is printed and \<open>None\<close> is returned, whatever
  the log flag.
\<close>

theorem solve_semi_dual_entropic_dispatch:
  "(is_casing_of method ''sag'' \<longrightarrow>
      solve_semi_dual_entropic a b M reg method numItermax lr log_flag draws =
        ([], ebind (sag_entropic_transport a b M reg numItermax lr draws)
               (semi_dual_plan a b M reg log_flag)))
   \<and> (is_casing_of method ''asgd'' \<longrightarrow>
      solve_semi_dual_entropic a b M reg method numItermax lr log_flag draws =
        ([], ebind (averaged_sgd_entropic_transport a b M reg numItermax lr draws)
               (semi_dual_plan a b M reg log_flag)))
   \<and> (\<not> is_casing_of method ''sag'' \<and> \<not> is_casing_of method ''asgd'' \<longrightarrow>
      solve_semi_dual_entropic a b M reg method numItermax lr log_flag draws =
        ([''Please, select your method between SAG and ASGD''], Inr RNone))"
  by (auto simp add: solve_semi_dual_entropic_def lower_sag [symmetric] lower_asgd [symmetric])

theorem solve_semi_dual_entropic_dispatch_witness:
  "is_casing_of ''SaG'' ''sag''
   \<and> solve_semi_dual_entropic [1] [1] \<lparr>n_rows = 1, n_cols = 1, cell = (\<lambda>i j. 0)\<rparr> 1 ''SaG'' 2
        None True (\<lambda>k. 0) =
      ([], ebind (sag_entropic_transport [1] [1] \<lparr>n_rows = 1, n_cols = 1, cell = (\<lambda>i j. 0)\<rparr> 1 2
                   None (\<lambda>k. 0))
             (semi_dual_plan [1] [1] \<lparr>n_rows = 1, n_cols = 1, cell = (\<lambda>i j. 0)\<rparr> 1 True))
   \<and> is_casing_of ''aSGd'' ''asgd''
   \<and> solve_semi_dual_entropic [1] [1] \<lparr>n_rows = 1, n_cols = 1, cell = (\<lambda>i j. 0)\<rparr> 1 ''aSGd'' 2
        None True (\<lambda>k. 0) =
      ([], ebind (averaged_sgd_entropic_transport [1] [1]
                   \<lparr>n_rows = 1, n_cols = 1, cell = (\<lambda>i j. 0)\<rparr> 1 2 None (\<lambda>k. 0))
             (semi_dual_plan [1] [1] \<lparr>n_rows = 1, n_cols = 1, cell = (\<lambda>i j. 0)\<rparr> 1 True))
   \<and> \<not> is_casing_of ''sgd'' ''sag'' \<and> \<not> is_casing_of ''sgd'' ''asgd''
   \<and> solve_semi_dual_entropic [1] [1] \<lparr>n_rows = 1, n_cols = 1, cell = (\<lambda>i j. 0)\<rparr> 1 ''sgd'' 2
        None True (\<lambda>k. 0) =
      ([''Please, select your method between SAG and ASGD''], Inr RNone)"
proof -
  let ?M = "\<lparr>n_rows = 1, n_cols = 1, cell = (\<lambda>i j. 0)\<rparr>"
  have c: "is_casing_of ''SaG'' ''sag''" "is_casing_of ''aSGd'' ''asgd''"
    "\<not> is_casing_of ''sgd'' ''sag''" "\<not> is_casing_of ''sgd'' ''asgd''"
    by code_simp+
  show ?thesis
    using c
      solve_semi_dual_entropic_dispatch [of "''SaG''" "[1]" "[1]" ?M 1 2 None True "\<lambda>k. 0"]
      solve_semi_dual_entropic_dispatch [of "''aSGd''" "[1]" "[1]" ?M 1 2 None True "\<lambda>k. 0"]
      solve_semi_dual_entropic_dispatch [of "''sgd''" "[1]" "[1]" ?M 1 2 None True "\<lambda>k. 0"]
    by simp
qed

subsection \<open>SAG: the iteration and the value returned\<close>

lemma gibbs_weights_sum_pos_aux:
  fixes reg :: real
  shows "length r = length b \<Longrightarrow> \<forall>x\<in>set b. 0 \<le> x \<Longrightarrow>
     0 \<le> sum_list (map2 (\<lambda>x b_j. exp (- x / reg) * b_j) r b) \<and>
     (0 < sum_list b \<longrightarrow> 0 < sum_list (map2 (\<lambda>x b_j. exp (- x / reg) * b_j) r b))"
proof (induction r b rule: list_induct2)
  case Nil
  show ?case by simp
next
  case (Cons x xs y ys)
  then have ih: "0 \<le> sum_list (map2 (\<lambda>x b_j. exp (- x / reg) * b_j) xs ys)"
    "0 < sum_list ys \<Longrightarrow> 0 < sum_list (map2 (\<lambda>x b_j. exp (- x / reg) * b_j) xs ys)"
    by simp_all
  have y: "0 \<le> y" and ys: "0 \<le> sum_list ys"
    using Cons.prems by (simp_all add: sum_list_nonneg)
  have e: "0 \<le> exp (- x / reg) * y"
    using y by simp
  have "0 < exp (- x / reg) * y + sum_list (map2 (\<lambda>x b_j. exp (- x / reg) * b_j) xs ys)"
    if "0 < y + sum_list ys"
  proof (cases "0 < y")
    case True
    then have "0 < exp (- x / reg) * y" by simp
    with ih(1) show ?thesis by linarith
  next
    case False
    with y that have "0 < sum_list ys" by linarith
    with ih(2) e show ?thesis by linarith
  qed
  with e ih(1) show ?case by simp
qed

lemma gibbs_weights_sum_pos:
  assumes "length Mi = length b" and "length beta = length b"
    and "\<forall>x\<in>set b. 0 \<le> x" and "0 < sum_list b"
  shows "0 < sum_list (gibbs_weights b Mi reg beta)"
  using gibbs_weights_sum_pos_aux [of "map2 (-) Mi beta" b reg] assms
  by (simp add: gibbs_weights_alt)

lemma coordinate_grad_valid:
  assumes "valid_measure b (n_cols M)" and "reg \<noteq> 0" and "k < n_rows M"
    and "length beta = n_cols M"
  shows "coordinate_grad_semi_dual b M reg beta (int k) =
           Inr (map2 (-) b (khi_of b (matrix_row M k) reg beta))"
proof -
  have "0 < sum_list (gibbs_weights b (matrix_row M k) reg beta)"
    using assms by (intro gibbs_weights_sum_pos) (simp_all add: valid_measure_def)
  then show ?thesis
    using assms by (intro coordinate_grad_closed) (simp_all add: valid_measure_def)
qed

lemma length_khi_of:
  "length Mi = length b \<Longrightarrow> length beta = length b \<Longrightarrow> length (khi_of b Mi reg beta) = length b"
  by (simp add: khi_of_def length_gibbs_weights)

lemma set_row_same:
  "k < length rows \<Longrightarrow> length v = length (rows ! k) \<Longrightarrow>
     set_row rows (int k) v = Inr (rows[k := v])"
proof -
  assume k: "k < length rows" and v: "length v = length (rows ! k)"
  have "map (bget v) [0..<length v] = v"
    by (rule nth_equalityI) simp_all
  with k v show ?thesis
    by (simp add: set_row_def Let_def)
qed

lemma randint_pos: "0 < n \<Longrightarrow> randint raw n = Inr (int (raw mod n))"
  by (simp add: randint_def)

lemma sag_iteration_closed:
  assumes a: "length a = n_rows M" and b: "valid_measure b (n_cols M)" and reg: "reg \<noteq> 0"
    and ns: "0 < n_rows M" and shape: "sag_shape M st"
  shows "sag_iteration a b M reg lr (n_rows M) draws it st =
           Inr (sag_step_spec a b M reg lr (draws it mod n_rows M) st)"
    and "sag_shape M (sag_step_spec a b M reg lr (draws it mod n_rows M) st)"
proof -
  define i where "i = draws it mod n_rows M"
  define g where "g = map2 (-) b (khi_of b (matrix_row M i) reg (cur_beta st))"
  define ccg where "ccg = map (\<lambda>x. a ! i * x) g"
  define delta where "delta = map2 (-) ccg (stored_gradient st ! i)"
  define sum' where "sum' = map2 (+) (sum_stored_gradient st) delta"
  define step where "step = map (\<lambda>x. lr * (1 / real (n_rows M)) * x) sum'"
  have i: "i < n_rows M"
    using ns by (simp add: i_def)
  have lb: "length b = n_cols M"
    using b by (simp add: valid_measure_def)
  have sh: "length (cur_beta st) = n_cols M" "length (stored_gradient st) = n_rows M"
    "length (stored_gradient st ! i) = n_cols M" "length (sum_stored_gradient st) = n_cols M"
    using shape i by (simp_all add: sag_shape_def)
  have lg: "length g = n_cols M"
    using lb sh by (simp add: g_def length_khi_of)
  have s1: "randint (draws it) (n_rows M) = Inr (int i)"
    using ns by (simp add: randint_pos i_def)
  have s2: "getitem a (int i) = Inr (a ! i)"
    using i a by (simp add: getitem_nat)
  have s3: "coordinate_grad_semi_dual b M reg (cur_beta st) (int i) = Inr g"
    unfolding g_def using b reg i sh(1) by (rule coordinate_grad_valid)
  have s4: "getitem (stored_gradient st) (int i) = Inr (stored_gradient st ! i)"
    using i sh by (simp add: getitem_nat)
  have s5: "broadcast2 (-) ccg (stored_gradient st ! i) = Inr delta"
    using lg sh by (simp add: broadcast2_same ccg_def delta_def)
  have s6: "inplace (+) (sum_stored_gradient st) delta = Inr sum'"
    using lg sh by (simp add: inplace_same ccg_def delta_def sum'_def)
  have s7: "set_row (stored_gradient st) (int i) ccg = Inr ((stored_gradient st)[i := ccg])"
    using i lg sh by (simp add: set_row_same ccg_def)
  have s8: "(if n_rows M = 0 then Inl ZeroDivisionError else Inr (1 / real (n_rows M))) =
      Inr (1 / real (n_rows M))"
    using ns by simp
  have s9: "inplace (+) (cur_beta st) (map (\<lambda>x. lr * (1 / real (n_rows M)) * x) sum') =
      Inr (map2 (+) (cur_beta st) step)"
    using lg sh by (simp add: inplace_same step_def sum'_def delta_def ccg_def)
  have spec: "sag_step_spec a b M reg lr i st =
      \<lparr>cur_beta = map2 (+) (cur_beta st) step, stored_gradient = (stored_gradient st)[i := ccg],
       sum_stored_gradient = sum'\<rparr>"
    by (simp add: sag_step_spec_def Let_def step_def sum'_def delta_def ccg_def g_def)
  show "sag_iteration a b M reg lr (n_rows M) draws it st =
           Inr (sag_step_spec a b M reg lr (draws it mod n_rows M) st)"
    unfolding sag_iteration_def i_def [symmetric] spec
    by (simp only: s1 s2 s3 s4 s5 s6 s7 s8 s9 ebind_Inr Let_def ccg_def [symmetric])
  have "\<forall>row\<in>set ((stored_gradient st)[i := ccg]). length row = n_cols M"
    using shape lg by (auto simp add: sag_shape_def ccg_def dest!: set_update_subset_insert [THEN subsetD])
  then show "sag_shape M (sag_step_spec a b M reg lr (draws it mod n_rows M) st)"
    unfolding i_def [symmetric] spec
    using lg sh by (simp add: sag_shape_def step_def sum'_def delta_def ccg_def)
qed

lemma sag_shape_init: "sag_shape M (sag_init M)"
  by (simp add: sag_shape_def sag_init_def Let_def)

lemma sag_loop_closed:
  assumes "length a = n_rows M" and "valid_measure b (n_cols M)" and "reg \<noteq> 0"
    and "0 < n_rows M"
  shows "sag_loop a b M reg lr draws n = Inr (sag_run_spec a b M reg lr draws n)
         \<and> sag_shape M (sag_run_spec a b M reg lr draws n)"
proof (induction n)
  case 0
  show ?case by (simp add: sag_loop_def sag_shape_init)
next
  case (Suc n)
  then show ?case
    using sag_iteration_closed [OF assms, of "sag_run_spec a b M reg lr draws n" lr draws n]
    by (simp add: sag_loop_def)
qed

lemma valid_measure_has_pos:
  assumes "valid_measure v n"
  shows "\<exists>x\<in>set v. 0 < x"
proof (rule ccontr)
  assume "\<not> (\<exists>x\<in>set v. 0 < x)"
  then have "\<forall>x\<in>set v. x \<le> 0" by auto
  then have "sum_list v \<le> 0" by (simp add: sum_list_nonpos)
  with assms show False by (simp add: valid_measure_def)
qed

lemma learning_rate_default:
  assumes a: "valid_measure a n" and reg: "0 < reg"
  shows "ebind (div_scalar a reg) (\<lambda>q. ebind (py_max q) (\<lambda>m. div_float 1 m)) =
           Inr (default_lr a reg)"
proof -
  obtain x where x: "x \<in> set a" "0 < x"
    using valid_measure_has_pos [OF a] by auto
  then have ne: "a \<noteq> []" by auto
  have "x / reg \<in> set (map (\<lambda>x. x / reg) a)"
    using x by auto
  then have "x / reg \<le> Max (set (map (\<lambda>x. x / reg) a))"
    by (intro Max_ge) simp_all
  moreover have "0 < x / reg"
    using x reg by simp
  ultimately have "Max (set (map (\<lambda>x. x / reg) a)) \<noteq> 0"
    by linarith
  then show ?thesis
    using reg ne by (simp add: div_scalar_nonzero py_max_def div_float_def default_lr_def)
qed

lemma valid_measure_nonempty: "valid_measure v n \<Longrightarrow> 0 < n"
  using valid_measure_has_pos [of v n] by (auto simp add: valid_measure_def)

lemma sag_entropic_transport_closed:
  assumes "valid_measure a (n_rows M)" and "valid_measure b (n_cols M)" and "0 < reg"
  shows "sag_entropic_transport a b M reg numItermax lr draws =
           Inr (cur_beta (sag_run_spec a b M reg
                  (case lr of None \<Rightarrow> default_lr a reg | Some l \<Rightarrow> l) draws numItermax))"
proof -
  have a: "length a = n_rows M" and ns: "0 < n_rows M" and reg: "reg \<noteq> 0"
    using assms valid_measure_nonempty [of a "n_rows M"] by (simp_all add: valid_measure_def)
  have loop: "sag_loop a b M reg l draws numItermax = Inr (sag_run_spec a b M reg l draws numItermax)"
    for l
    using sag_loop_closed [OF a assms(2) reg ns] by simp
  show ?thesis
  proof (cases lr)
    case None
    then show ?thesis
      using learning_rate_default [OF assms(1,3)]
      by (simp add: sag_entropic_transport_def loop)
  next
    case (Some l)
    then show ?thesis
      by (simp add: sag_entropic_transport_def loop)
  qed
qed

text \<open>
  Claim C3. For probability vectors \<open>a\<close> and \<open>b\<close> and \<open>reg\<close> positive,
  \<open>sag_entropic_transport\<close> returns, for every sequence of draws, the \<open>beta\<close> of the state
  reached by \<open>numItermax\<close> iterations of the specified step from the zero state (the last
  iterate), with the learning rate given or, when none is given, \<open>1 / max(a / reg)\<close>. The
  index of iteration \<open>k\<close> is the draw of the generator, below \<open>ns\<close>.
\<close>

theorem sag_entropic_transport_correct:
  assumes "valid_measure a (n_rows M)" and "valid_measure b (n_cols M)" and "0 < reg"
  shows "sag_entropic_transport a b M reg numItermax lr draws =
           Inr (cur_beta (sag_run_spec a b M reg
                  (case lr of None \<Rightarrow> default_lr a reg | Some l \<Rightarrow> l) draws numItermax))"
  using assms by (rule sag_entropic_transport_closed)

theorem sag_entropic_transport_correct_witness:
  "sag_entropic_transport [1/2, 1/2] [1/2, 1/2]
     \<lparr>n_rows = 2, n_cols = 2, cell = (\<lambda>i j. if i = j then 0 else ln 2)\<rparr> 1 1 None (\<lambda>k. 0)
   = Inr [- (1/12), 1/12]"
proof -
  let ?M = "\<lparr>n_rows = 2, n_cols = 2, cell = (\<lambda>i j. if i = j then 0 else ln 2)\<rparr>"
  have v: "valid_measure [1/2, 1/2] (n_rows ?M)" "valid_measure [1/2, 1/2] (n_cols ?M)"
    by (simp_all add: valid_measure_def)
  have "matrix_row ?M 0 = [0, ln 2]"
    by (simp add: matrix_row_def upt_rec)
  then show ?thesis
    using sag_entropic_transport_correct [OF v, of 1 1 None "\<lambda>k. 0"]
    by (simp add: default_lr_def sag_step_spec_def sag_init_def khi_of_def gibbs_weights_def
        exp_minus Let_def numeral_2_eq_2)
qed

subsection \<open>SAG: the invariant of the gradient table\<close>

lemma sum_list_update_real:
  fixes xs :: "real list"
  shows "k < length xs \<Longrightarrow> sum_list (xs[k := x]) = sum_list xs + (x - xs ! k)"
proof (induction xs arbitrary: k)
  case Nil
  then show ?case by simp
next
  case (Cons y ys)
  then show ?case by (cases k) simp_all
qed

lemma column_sums_update:
  assumes "k < length rows" and "length new = nt" and "length (rows ! k) = nt"
  shows "column_sums nt (rows[k := new]) =
           map2 (+) (column_sums nt rows) (map2 (-) new (rows ! k))"
proof (rule nth_equalityI)
  show "length (column_sums nt (rows[k := new])) =
        length (map2 (+) (column_sums nt rows) (map2 (-) new (rows ! k)))"
    using assms by (simp add: column_sums_def)
next
  fix j
  assume "j < length (column_sums nt (rows[k := new]))"
  then have j: "j < nt" by (simp add: column_sums_def)
  have "(\<Sum>row\<leftarrow>rows[k := new]. row ! j) = sum_list ((map (\<lambda>row. row ! j) rows)[k := new ! j])"
    by (simp add: map_update)
  also have "\<dots> = (\<Sum>row\<leftarrow>rows. row ! j) + (new ! j - rows ! k ! j)"
    using assms(1) by (simp add: sum_list_update_real)
  finally show "column_sums nt (rows[k := new]) ! j =
      map2 (+) (column_sums nt rows) (map2 (-) new (rows ! k)) ! j"
    using j assms by (simp add: column_sums_def)
qed

lemma column_sums_zero: "column_sums nt (replicate ns (replicate nt 0)) = replicate nt 0"
  by (rule nth_equalityI) (simp_all add: column_sums_def sum_list_replicate)

lemma sag_iteration_Inr:
  assumes step: "sag_iteration a b M reg lr (n_rows M) draws it st = Inr st'"
    and shape: "sag_shape M st"
  shows "\<exists>k new. k < n_rows M \<and> length new = n_cols M
           \<and> stored_gradient st' = (stored_gradient st)[k := new]
           \<and> sum_stored_gradient st' =
               map2 (+) (sum_stored_gradient st) (map2 (-) new (stored_gradient st ! k))
           \<and> length (cur_beta st') = n_cols M"
proof -
  from step obtain i a_i g old delta sum1 stored1 inv_n beta1 where
    r1: "randint (draws it) (n_rows M) = Inr i"
    and r4: "getitem (stored_gradient st) i = Inr old"
    and r5: "broadcast2 (-) (map (\<lambda>x. a_i * x) g) old = Inr delta"
    and r6: "inplace (+) (sum_stored_gradient st) delta = Inr sum1"
    and r7: "set_row (stored_gradient st) i (map (\<lambda>x. a_i * x) g) = Inr stored1"
    and r9: "inplace (+) (cur_beta st) (map (\<lambda>x. lr * inv_n * x) sum1) = Inr beta1"
    and st': "st' = \<lparr>cur_beta = beta1, stored_gradient = stored1, sum_stored_gradient = sum1\<rparr>"
    unfolding sag_iteration_def Let_def ebind_eq_Inr by blast
  define k where "k = draws it mod n_rows M"
  define ccg where "ccg = map (\<lambda>x. a_i * x) g"
  define nt where "nt = n_cols M"
  define new where "new = map (bget ccg) [0..<nt]"
  have sh: "length (cur_beta st) = nt" "length (stored_gradient st) = n_rows M"
    "\<forall>row\<in>set (stored_gradient st). length row = nt" "length (sum_stored_gradient st) = nt"
    using shape by (simp_all add: sag_shape_def nt_def)
  from r1 have ns: "0 < n_rows M" and i: "i = int k"
    by (auto simp add: randint_def k_def split: if_splits)
  then have k: "k < n_rows M"
    by (simp add: k_def)
  then have lrow: "length (stored_gradient st ! k) = nt"
    using sh by simp
  from r4 have old: "old = stored_gradient st ! k"
    using k sh by (simp add: i getitem_nat)
  from r7 have len: "length ccg = nt \<or> length ccg = 1"
    and stored1: "stored1 = (stored_gradient st)[k := new]"
    using k sh lrow
    by (auto simp add: set_row_def i Let_def ccg_def [symmetric] new_def split: if_splits)
  have "bdim (length ccg) (length old) = Inr nt"
    using len lrow old by (auto simp add: bdim_def)
  then have "delta = map (\<lambda>j. bget ccg j - bget old j) [0..<nt]"
    using r5 by (simp add: broadcast2_def ccg_def)
  then have delta: "delta = map2 (-) new old"
    using lrow old by (intro nth_equalityI) (simp_all add: new_def)
  have ldelta: "length delta = nt"
    using delta lrow old by (simp add: new_def)
  from r6 have sum1: "sum1 = map2 (+) (sum_stored_gradient st) delta"
    using ldelta sh by (simp add: inplace_same)
  from r9 have "length beta1 = nt"
    using sh by (auto simp add: inplace_def split: if_splits)
  then show ?thesis
    using k stored1 sum1 delta old
    by (intro exI [of _ k] exI [of _ new]) (simp add: st' new_def nt_def)
qed

lemma sag_iteration_same_delta:
  assumes "sag_iteration a b M reg lr (n_rows M) draws it st = Inr st'" and "sag_shape M st"
  shows "sag_shape M st' \<and>
     (\<exists>delta. sum_stored_gradient st' = map2 (+) (sum_stored_gradient st) delta
        \<and> column_sums (n_cols M) (stored_gradient st') =
            map2 (+) (column_sums (n_cols M) (stored_gradient st)) delta)"
proof -
  from sag_iteration_Inr [OF assms] obtain k new where
    k: "k < n_rows M" and new: "length new = n_cols M"
    and stored: "stored_gradient st' = (stored_gradient st)[k := new]"
    and sum: "sum_stored_gradient st' =
               map2 (+) (sum_stored_gradient st) (map2 (-) new (stored_gradient st ! k))"
    and beta: "length (cur_beta st') = n_cols M"
    by blast
  have sh: "length (stored_gradient st) = n_rows M"
    "\<forall>row\<in>set (stored_gradient st). length row = n_cols M"
    "length (sum_stored_gradient st) = n_cols M"
    using assms(2) by (simp_all add: sag_shape_def)
  then have lrow: "length (stored_gradient st ! k) = n_cols M"
    using k by simp
  have "\<forall>row\<in>set ((stored_gradient st)[k := new]). length row = n_cols M"
    using sh(2) new by (auto dest!: set_update_subset_insert [THEN subsetD])
  then have "sag_shape M st'"
    using sh new lrow by (simp add: sag_shape_def stored sum beta)
  moreover have "column_sums (n_cols M) (stored_gradient st') =
      map2 (+) (column_sums (n_cols M) (stored_gradient st))
        (map2 (-) new (stored_gradient st ! k))"
    unfolding stored using k sh(1) new lrow by (intro column_sums_update) simp_all
  ultimately show ?thesis
    using sum by blast
qed

lemma sag_loop_invariant:
  "sag_loop a b M reg lr draws n = Inr st \<Longrightarrow>
     sag_shape M st \<and> sum_stored_gradient st = column_sums (n_cols M) (stored_gradient st)"
proof (induction n arbitrary: st)
  case 0
  then have "st = sag_init M"
    by (simp add: sag_loop_def)
  then show ?case
    using sag_shape_init [of M] by (simp add: sag_init_def Let_def column_sums_zero)
next
  case (Suc n)
  from Suc.prems obtain st0 where
    prev: "sag_loop a b M reg lr draws n = Inr st0"
    and step: "sag_iteration a b M reg lr (n_rows M) draws n st0 = Inr st"
    by (auto simp add: sag_loop_def ebind_eq_Inr)
  from Suc.IH [OF prev] have inv: "sag_shape M st0"
    "sum_stored_gradient st0 = column_sums (n_cols M) (stored_gradient st0)"
    by simp_all
  from sag_iteration_same_delta [OF step inv(1)] inv(2) show ?case
    by auto
qed

text \<open>
  Claim C2. Whatever the inputs and the draws, after every number \<open>n\<close> of iterations of
  \<open>sag_entropic_transport\<close> that ran without an exception, \<open>sum_stored_gradient\<close> is the
  sum of the rows of \<open>stored_gradient\<close>; and the next iteration, when it succeeds, changes
  the running sum and the sum of the rows by one and the same \<open>delta\<close>.
\<close>

theorem sag_gradient_table_invariant:
  assumes "sag_loop a b M reg lr draws n = Inr st"
  shows "sum_stored_gradient st = column_sums (n_cols M) (stored_gradient st)
       \<and> (\<forall>st'. sag_iteration a b M reg lr (n_rows M) draws n st = Inr st' \<longrightarrow>
            (\<exists>delta. sum_stored_gradient st' = map2 (+) (sum_stored_gradient st) delta
               \<and> column_sums (n_cols M) (stored_gradient st') =
                   map2 (+) (column_sums (n_cols M) (stored_gradient st)) delta))"
  using sag_loop_invariant [OF assms] sag_iteration_same_delta [of a b M reg lr draws n st]
  by blast

theorem sag_gradient_table_invariant_witness:
  "sag_loop [1/2, 1/2] [1/2, 1/2]
     \<lparr>n_rows = 2, n_cols = 2, cell = (\<lambda>i j. if i = j then 0 else ln 2)\<rparr> 1 2 (\<lambda>k. 0) 1
   = Inr \<lparr>cur_beta = [- (1/12), 1/12], stored_gradient = [[- (1/12), 1/12], [0, 0]],
          sum_stored_gradient = [- (1/12), 1/12]\<rparr>
   \<and> column_sums 2 [[- (1/12), 1/12], [0, 0]] = [- (1/12), 1/12]"
proof -
  let ?M = "\<lparr>n_rows = 2, n_cols = 2, cell = (\<lambda>i j. if i = j then 0 else ln 2)\<rparr>"
  let ?st = "\<lparr>cur_beta = [- (1/12), 1/12], stored_gradient = [[- (1/12), 1/12], [0, 0]],
          sum_stored_gradient = [- (1/12), 1/12 :: real]\<rparr>"
  have "matrix_row ?M 0 = [0, ln 2]"
    by (simp add: matrix_row_def upt_rec)
  then have run: "sag_loop [1/2, 1/2] [1/2, 1/2] ?M 1 2 (\<lambda>k. 0) 1 = Inr ?st"
    using sag_loop_closed [of "[1/2, 1/2]" ?M "[1/2, 1/2]" 1 2 "\<lambda>k. 0" 1]
    by (simp add: valid_measure_def sag_step_spec_def sag_init_def khi_of_def gibbs_weights_def
        exp_minus Let_def numeral_2_eq_2)
  show ?thesis
    using run sag_gradient_table_invariant [OF run] by simp
qed

subsection \<open>Averaged SGD: the iteration and the value returned\<close>

lemma asgd_iteration_closed:
  assumes b: "valid_measure b (n_cols M)" and reg: "reg \<noteq> 0"
    and ns: "0 < n_rows M" and shape: "asgd_shape M st"
  shows "asgd_iteration b M reg lr (n_rows M) draws it st =
           Inr (asgd_step_spec b M reg lr (it + 1) (draws it mod n_rows M) st)"
    and "asgd_shape M (asgd_step_spec b M reg lr (it + 1) (draws it mod n_rows M) st)"
proof -
  define i where "i = draws it mod n_rows M"
  define g where "g = map2 (-) b (khi_of b (matrix_row M i) reg (asgd_cur_beta st))"
  define cur' where
    "cur' = map2 (+) (asgd_cur_beta st) (map (\<lambda>x. (lr / sqrt (real (it + 1))) * x) g)"
  define ave' where
    "ave' = map2 (+) (map (\<lambda>x. (1 / real (it + 1)) * x) cur')
              (map (\<lambda>x. (1 - 1 / real (it + 1)) * x) (ave_beta st))"
  have i: "i < n_rows M"
    using ns by (simp add: i_def)
  have lb: "length b = n_cols M"
    using b by (simp add: valid_measure_def)
  have sh: "length (asgd_cur_beta st) = n_cols M" "length (ave_beta st) = n_cols M"
    using shape by (simp_all add: asgd_shape_def)
  have lg: "length g = n_cols M"
    using lb sh by (simp add: g_def length_khi_of)
  have s1: "randint (draws it) (n_rows M) = Inr (int i)"
    using ns by (simp add: randint_pos i_def)
  have s2: "coordinate_grad_semi_dual b M reg (asgd_cur_beta st) (int i) = Inr g"
    unfolding g_def using b reg i sh(1) by (rule coordinate_grad_valid)
  have s3: "inplace (+) (asgd_cur_beta st) (map (\<lambda>x. (lr / sqrt (real (it + 1))) * x) g) =
      Inr cur'"
    using lg sh by (simp add: inplace_same cur'_def)
  have s4: "broadcast2 (+) (map (\<lambda>x. (1 / real (it + 1)) * x) cur')
              (map (\<lambda>x. (1 - 1 / real (it + 1)) * x) (ave_beta st)) = Inr ave'"
    using lg sh by (simp add: broadcast2_same cur'_def ave'_def)
  have spec: "asgd_step_spec b M reg lr (it + 1) i st = \<lparr>asgd_cur_beta = cur', ave_beta = ave'\<rparr>"
    by (simp add: asgd_step_spec_def Let_def cur'_def ave'_def g_def)
  show "asgd_iteration b M reg lr (n_rows M) draws it st =
           Inr (asgd_step_spec b M reg lr (it + 1) (draws it mod n_rows M) st)"
    unfolding asgd_iteration_def i_def [symmetric] spec Let_def
    by (simp only: s1 s2 s3 s4 ebind_Inr)
  show "asgd_shape M (asgd_step_spec b M reg lr (it + 1) (draws it mod n_rows M) st)"
    unfolding i_def [symmetric] spec
    using lg sh by (simp add: asgd_shape_def cur'_def ave'_def)
qed

lemma asgd_loop_closed:
  assumes "valid_measure b (n_cols M)" and "reg \<noteq> 0" and "0 < n_rows M"
  shows "asgd_loop b M reg lr draws n = Inr (asgd_run_spec b M reg lr draws n)
         \<and> asgd_shape M (asgd_run_spec b M reg lr draws n)"
proof (induction n)
  case 0
  show ?case by (simp add: asgd_loop_def asgd_shape_def asgd_init_def Let_def)
next
  case (Suc n)
  then show ?case
    using asgd_iteration_closed [OF assms, where st = "asgd_run_spec b M reg lr draws n"
        and lr = lr and draws = draws and it = n]
    by (simp add: asgd_loop_def)
qed

lemma averaged_sgd_entropic_transport_closed:
  assumes "valid_measure a (n_rows M)" and "valid_measure b (n_cols M)" and "0 < reg"
  shows "averaged_sgd_entropic_transport a b M reg numItermax lr draws =
           Inr (ave_beta (asgd_run_spec b M reg
                  (case lr of None \<Rightarrow> default_lr a reg | Some l \<Rightarrow> l) draws numItermax))"
proof -
  have ns: "0 < n_rows M" and reg: "reg \<noteq> 0"
    using assms valid_measure_nonempty [of a "n_rows M"] by simp_all
  have loop: "asgd_loop b M reg l draws numItermax = Inr (asgd_run_spec b M reg l draws numItermax)"
    for l
    using asgd_loop_closed [OF assms(2) reg ns] by simp
  show ?thesis
  proof (cases lr)
    case None
    then show ?thesis
      using learning_rate_default [OF assms(1,3)]
      by (simp add: averaged_sgd_entropic_transport_def loop)
  next
    case (Some l)
    then show ?thesis
      by (simp add: averaged_sgd_entropic_transport_def loop)
  qed
qed

text \<open>
  Claim C4. For probability vectors \<open>a\<close> and \<open>b\<close> and \<open>reg\<close> positive,
  \<open>averaged_sgd_entropic_transport\<close> returns, for every sequence of draws, the running
  average \<open>ave_beta\<close> (not the last iterate \<open>cur_beta\<close>) of the state reached by
  \<open>numItermax\<close> iterations of the specified step from \<open>cur_beta\<close> and \<open>ave_beta\<close> zero.
\<close>

theorem averaged_sgd_entropic_transport_correct:
  assumes "valid_measure a (n_rows M)" and "valid_measure b (n_cols M)" and "0 < reg"
  shows "averaged_sgd_entropic_transport a b M reg numItermax lr draws =
           Inr (ave_beta (asgd_run_spec b M reg
                  (case lr of None \<Rightarrow> default_lr a reg | Some l \<Rightarrow> l) draws numItermax))"
  using assms by (rule averaged_sgd_entropic_transport_closed)

theorem averaged_sgd_entropic_transport_correct_witness:
  "averaged_sgd_entropic_transport [1/2, 1/2] [1/2, 1/2]
     \<lparr>n_rows = 2, n_cols = 2, cell = (\<lambda>i j. if i = j then 0 else ln 2)\<rparr> 1 2
     (Some (6 * ln 2)) (\<lambda>k. 0)
   = Inr [- ln 2 + ln 2 / (2 * sqrt 2), ln 2 - ln 2 / (2 * sqrt 2)]"
proof -
  let ?M = "\<lparr>n_rows = 2, n_cols = 2, cell = (\<lambda>i j. if i = j then 0 else ln 2)\<rparr>"
  have v: "valid_measure [1/2, 1/2] (n_rows ?M)" "valid_measure [1/2, 1/2] (n_cols ?M)"
    by (simp_all add: valid_measure_def)
  have row: "matrix_row ?M 0 = [0, ln 2]"
    by (simp add: matrix_row_def upt_rec)
  have k1: "khi_of [1/2, 1/2] [0, ln 2] 1 [0, 0] = [2/3, 1/3]"
    by (simp add: khi_of_def gibbs_weights_def exp_minus)
  have k2: "khi_of [1/2, 1/2] [0, ln 2] 1 [- ln 2, ln 2] = [1/3, 2/3]"
    by (simp add: khi_of_def gibbs_weights_def exp_minus)
  have rep: "replicate 2 (0::real) = [0, 0]"
    by (simp add: numeral_2_eq_2)
  have st1: "asgd_run_spec [1/2, 1/2] ?M 1 (6 * ln 2) (\<lambda>k. 0) (Suc 0) =
      \<lparr>asgd_cur_beta = [- ln 2, ln 2], ave_beta = [- ln 2, ln 2]\<rparr>"
    by (simp add: asgd_step_spec_def asgd_init_def Let_def row k1 rep)
  have st2: "ave_beta (asgd_run_spec [1/2, 1/2] ?M 1 (6 * ln 2) (\<lambda>k. 0) (Suc (Suc 0))) =
      [- ln 2 + ln 2 / (2 * sqrt 2), ln 2 - ln 2 / (2 * sqrt 2)]"
    unfolding asgd_run_spec.simps(2) [of _ _ _ _ _ "Suc 0"] st1
    by (simp add: asgd_step_spec_def Let_def row k2 field_simps)
  show ?thesis
    using averaged_sgd_entropic_transport_correct [OF v, of 1 2 "Some (6 * ln 2)" "\<lambda>k. 0"] st2
    by (simp only: numeral_2_eq_2 option.case)
qed

subsection \<open>The dual vectors of the semi-dual solvers sum to zero\<close>

lemma sum_list_map2_plus:
  "length xs = length ys \<Longrightarrow> sum_list (map2 (+) xs ys) = sum_list xs + sum_list (ys::real list)"
  by (induction xs ys rule: list_induct2) simp_all

lemma sum_list_scale: "sum_list (map (\<lambda>x. c * x) xs) = c * sum_list (xs::real list)"
  by (induction xs) (simp_all add: algebra_simps)

lemma coordinate_grad_sum_zero:
  assumes "length b = n_cols M" and "length beta = n_cols M" and "sum_list b = 1"
    and "sum_list (gibbs_weights b (matrix_row M k) reg beta) \<noteq> 0"
  shows "sum_list (map2 (-) b (khi_of b (matrix_row M k) reg beta)) = 0"
proof -
  have "length b = length (khi_of b (matrix_row M k) reg beta)"
    using assms(1,2) by (simp add: length_khi_of)
  moreover have "sum_list (khi_of b (matrix_row M k) reg beta) = 1"
    using assms(4) by (simp add: khi_of_def sum_list_map_divide)
  ultimately show ?thesis
    using assms(3) by (simp add: sum_list_map2_minus)
qed

lemma coordinate_grad_sum_zero_valid:
  assumes "valid_measure b (n_cols M)" and "length beta = n_cols M"
  shows "sum_list (map2 (-) b (khi_of b (matrix_row M k) reg beta)) = 0"
proof -
  have "0 < sum_list (gibbs_weights b (matrix_row M k) reg beta)"
    using assms by (intro gibbs_weights_sum_pos) (simp_all add: valid_measure_def)
  then show ?thesis
    using assms by (intro coordinate_grad_sum_zero) (simp_all add: valid_measure_def)
qed

lemma sag_step_spec_zero_sum:
  assumes b: "valid_measure b (n_cols M)" and i: "i < n_rows M"
    and shape: "sag_shape M st" and z: "sag_zero_sum st"
  shows "sag_zero_sum (sag_step_spec a b M reg lr i st)"
proof -
  define g where "g = map2 (-) b (khi_of b (matrix_row M i) reg (cur_beta st))"
  define ccg where "ccg = map (\<lambda>x. a ! i * x) g"
  define delta where "delta = map2 (-) ccg (stored_gradient st ! i)"
  define sum' where "sum' = map2 (+) (sum_stored_gradient st) delta"
  define step where "step = map (\<lambda>x. lr * (1 / real (n_rows M)) * x) sum'"
  have spec: "sag_step_spec a b M reg lr i st =
      \<lparr>cur_beta = map2 (+) (cur_beta st) step, stored_gradient = (stored_gradient st)[i := ccg],
       sum_stored_gradient = sum'\<rparr>"
    by (simp add: sag_step_spec_def Let_def step_def sum'_def delta_def ccg_def g_def)
  have lb: "length b = n_cols M"
    using b by (simp add: valid_measure_def)
  have sh: "length (cur_beta st) = n_cols M" "length (stored_gradient st) = n_rows M"
    "length (stored_gradient st ! i) = n_cols M" "length (sum_stored_gradient st) = n_cols M"
    using shape i by (simp_all add: sag_shape_def)
  have lg: "length g = n_cols M"
    using lb sh by (simp add: g_def length_khi_of)
  have old: "sum_list (stored_gradient st ! i) = 0"
    using z i sh(2) by (simp add: sag_zero_sum_def)
  have "sum_list g = 0"
    unfolding g_def using b sh(1) by (rule coordinate_grad_sum_zero_valid)
  then have ccg: "sum_list ccg = 0"
    unfolding ccg_def sum_list_scale by simp
  then have "sum_list delta = 0"
    using lg sh old by (simp add: delta_def sum_list_map2_minus ccg_def)
  then have sum': "sum_list sum' = 0"
    using z lg sh by (simp add: sum'_def sum_list_map2_plus delta_def ccg_def sag_zero_sum_def)
  then have "sum_list step = 0"
    unfolding step_def sum_list_scale by simp
  then have "sum_list (map2 (+) (cur_beta st) step) = 0"
    using z lg sh
    by (simp add: sum_list_map2_plus step_def sum'_def delta_def ccg_def sag_zero_sum_def)
  moreover have "\<forall>row\<in>set ((stored_gradient st)[i := ccg]). sum_list row = 0"
    using z ccg by (auto simp add: sag_zero_sum_def dest!: set_update_subset_insert [THEN subsetD])
  ultimately show ?thesis
    using sum' by (simp add: spec sag_zero_sum_def)
qed

lemma sag_run_spec_zero_sum:
  assumes "length a = n_rows M" and "valid_measure b (n_cols M)" and "reg \<noteq> 0"
    and "0 < n_rows M"
  shows "sag_zero_sum (sag_run_spec a b M reg lr draws n)"
proof (induction n)
  case 0
  show ?case by (simp add: sag_zero_sum_def sag_init_def Let_def sum_list_replicate)
next
  case (Suc n)
  have "sag_shape M (sag_run_spec a b M reg lr draws n)"
    using sag_loop_closed [OF assms] by simp
  then show ?case
    using Suc assms(2,4) by (simp add: sag_step_spec_zero_sum)
qed

lemma asgd_step_spec_zero_sum:
  assumes b: "valid_measure b (n_cols M)"
    and shape: "asgd_shape M st" and z: "asgd_zero_sum st"
  shows "asgd_zero_sum (asgd_step_spec b M reg lr k i st)"
proof -
  define g where "g = map2 (-) b (khi_of b (matrix_row M i) reg (asgd_cur_beta st))"
  define cur' where
    "cur' = map2 (+) (asgd_cur_beta st) (map (\<lambda>x. (lr / sqrt (real k)) * x) g)"
  define ave' where
    "ave' = map2 (+) (map (\<lambda>x. (1 / real k) * x) cur')
              (map (\<lambda>x. (1 - 1 / real k) * x) (ave_beta st))"
  have spec: "asgd_step_spec b M reg lr k i st = \<lparr>asgd_cur_beta = cur', ave_beta = ave'\<rparr>"
    by (simp add: asgd_step_spec_def Let_def cur'_def ave'_def g_def)
  have lb: "length b = n_cols M"
    using b by (simp add: valid_measure_def)
  have sh: "length (asgd_cur_beta st) = n_cols M" "length (ave_beta st) = n_cols M"
    using shape by (simp_all add: asgd_shape_def)
  have lg: "length g = n_cols M"
    using lb sh by (simp add: g_def length_khi_of)
  have "sum_list g = 0"
    unfolding g_def using b sh(1) by (rule coordinate_grad_sum_zero_valid)
  then have "sum_list (map (\<lambda>x. (lr / sqrt (real k)) * x) g) = 0"
    unfolding sum_list_scale by simp
  then have cur': "sum_list cur' = 0"
    using z lg sh by (simp add: cur'_def sum_list_map2_plus asgd_zero_sum_def)
  have "sum_list (map (\<lambda>x. (1 / real k) * x) cur') = 0"
    "sum_list (map (\<lambda>x. (1 - 1 / real k) * x) (ave_beta st)) = 0"
    using z cur' unfolding sum_list_scale asgd_zero_sum_def by simp_all
  then have "sum_list ave' = 0"
    using lg sh by (simp add: ave'_def sum_list_map2_plus cur'_def)
  with cur' show ?thesis
    by (simp add: spec asgd_zero_sum_def)
qed

lemma asgd_run_spec_zero_sum:
  assumes "valid_measure b (n_cols M)" and "reg \<noteq> 0" and "0 < n_rows M"
  shows "asgd_zero_sum (asgd_run_spec b M reg lr draws n)"
proof (induction n)
  case 0
  show ?case by (simp add: asgd_zero_sum_def asgd_init_def Let_def sum_list_replicate)
next
  case (Suc n)
  have "asgd_shape M (asgd_run_spec b M reg lr draws n)"
    using asgd_loop_closed [OF assms] by simp
  then show ?case
    using Suc assms(1) by (simp add: asgd_step_spec_zero_sum)
qed

text \<open>
  Claim C10. For probability vectors \<open>a\<close> and \<open>b\<close> and \<open>reg\<close> positive (so that every
  normalizer is positive), every output of \<open>coordinate_grad_semi_dual\<close> at a \<open>beta\<close> of
  length \<open>nt\<close> sums to zero, and for every iteration count and every sequence of draws
  the vectors returned by \<open>sag_entropic_transport\<close> and by
  \<open>averaged_sgd_entropic_transport\<close> sum to zero.
\<close>

theorem semi_dual_solvers_zero_sum:
  assumes "valid_measure a (n_rows M)" and "valid_measure b (n_cols M)" and "0 < reg"
  shows "(\<forall>k<n_rows M. \<forall>beta. length beta = n_cols M \<longrightarrow>
            (\<exists>g. coordinate_grad_semi_dual b M reg beta (int k) = Inr g \<and> sum_list g = 0))
       \<and> (\<exists>beta. sag_entropic_transport a b M reg numItermax lr draws = Inr beta
              \<and> sum_list beta = 0)
       \<and> (\<exists>beta. averaged_sgd_entropic_transport a b M reg numItermax lr draws = Inr beta
              \<and> sum_list beta = 0)"
proof -
  have a: "length a = n_rows M" and ns: "0 < n_rows M" and reg: "reg \<noteq> 0"
    using assms valid_measure_nonempty [of a "n_rows M"] by (simp_all add: valid_measure_def)
  have "\<exists>g. coordinate_grad_semi_dual b M reg beta (int k) = Inr g \<and> sum_list g = 0"
    if "k < n_rows M" and "length beta = n_cols M" for k beta
    using that assms(2) reg
    by (simp add: coordinate_grad_valid coordinate_grad_sum_zero_valid)
  moreover have "sum_list (cur_beta (sag_run_spec a b M reg l draws numItermax)) = 0" for l
    using sag_run_spec_zero_sum [OF a assms(2) reg ns] by (simp add: sag_zero_sum_def)
  moreover have "sum_list (ave_beta (asgd_run_spec b M reg l draws numItermax)) = 0" for l
    using asgd_run_spec_zero_sum [OF assms(2) reg ns] by (simp add: asgd_zero_sum_def)
  ultimately show ?thesis
    using assms
    by (simp add: sag_entropic_transport_closed averaged_sgd_entropic_transport_closed)
qed

theorem semi_dual_solvers_zero_sum_witness:
  "valid_measure [1/2, 1/2] 2
   \<and> (\<exists>g. coordinate_grad_semi_dual [1/2, 1/2]
          \<lparr>n_rows = 2, n_cols = 2, cell = (\<lambda>i j. if i = j then 0 else ln 2)\<rparr> 1 [- ln 2, ln 2] 1
          = Inr g \<and> sum_list g = 0)
   \<and> (\<exists>beta. sag_entropic_transport [1/2, 1/2] [1/2, 1/2]
          \<lparr>n_rows = 2, n_cols = 2, cell = (\<lambda>i j. if i = j then 0 else ln 2)\<rparr> 1 5 None
          (\<lambda>k. k) = Inr beta \<and> sum_list beta = 0)
   \<and> (\<exists>beta. averaged_sgd_entropic_transport [1/2, 1/2] [1/2, 1/2]
          \<lparr>n_rows = 2, n_cols = 2, cell = (\<lambda>i j. if i = j then 0 else ln 2)\<rparr> 1 5 None
          (\<lambda>k. k) = Inr beta \<and> sum_list beta = 0)"
proof -
  let ?M = "\<lparr>n_rows = 2, n_cols = 2, cell = (\<lambda>i j. if i = j then 0 else ln 2)\<rparr>"
  have v: "valid_measure [1/2, 1/2] 2"
    by (simp add: valid_measure_def)
  then have v': "valid_measure [1/2, 1/2] (n_rows ?M)" "valid_measure [1/2, 1/2] (n_cols ?M)"
    by simp_all
  note inst = semi_dual_solvers_zero_sum [OF v' zero_less_one, of 5 None "\<lambda>k. k"]
  have "\<exists>g. coordinate_grad_semi_dual [1/2, 1/2] ?M 1 [- ln 2, ln 2] (int 1) = Inr g
          \<and> sum_list g = 0"
    using inst [THEN conjunct1, rule_format, of 1 "[- ln 2, ln 2]"] by simp
  then have "\<exists>g. coordinate_grad_semi_dual [1/2, 1/2] ?M 1 [- ln 2, ln 2] 1 = Inr g
          \<and> sum_list g = 0"
    by simp
  then show ?thesis
    using v inst [THEN conjunct2] by simp
qed

subsection \<open>Batched SGD on the dual problem\<close>

lemma pick_distinct_props:
  "distinct pool \<Longrightarrow> length rs \<le> length pool \<Longrightarrow>
     length (pick_distinct pool rs) = length rs \<and> distinct (pick_distinct pool rs)
     \<and> set (pick_distinct pool rs) \<subseteq> set pool"
proof (induction rs arbitrary: pool)
  case Nil
  show ?case by simp
next
  case (Cons r rs)
  define p where "p = pool ! (r mod length pool)"
  have ne: "pool \<noteq> []"
    using Cons.prems by auto
  then have p: "p \<in> set pool"
    by (simp add: p_def)
  have "distinct (remove1 p pool)" "length rs \<le> length (remove1 p pool)"
    using Cons.prems p by (simp_all add: length_remove1)
  from Cons.IH [OF this]
  have ih: "length (pick_distinct (remove1 p pool) rs) = length rs"
    "distinct (pick_distinct (remove1 p pool) rs)"
    "set (pick_distinct (remove1 p pool) rs) \<subseteq> set (remove1 p pool)"
    by simp_all
  have "set (remove1 p pool) = set pool - {p}"
    using Cons.prems(1) by simp
  with ih p ne show ?case
    by (auto simp add: Let_def p_def [symmetric])
qed

lemma choice_valid:
  assumes "sz \<le> n"
  shows "choice raw n sz = Inr (map int (batch_of raw n sz))"
    and "valid_batch (batch_of raw n sz) n sz"
  using assms pick_distinct_props [of "[0..<n]" "map raw [0..<sz]"]
  by (auto simp add: choice_def batch_of_def valid_batch_def)

lemma length_fold_update:
  "length (fold (\<lambda>p ys. ys[f p := g p]) ps xs) = length xs"
  by (induction ps arbitrary: xs) simp_all

lemma length_scatter_add [simp]: "length (scatter_add xs ks v) = length xs"
  by (simp add: scatter_add_def length_fold_update)

lemma add_at_closed:
  assumes ks: "\<forall>k\<in>set ks. k < length xs" and v: "length v = length ks"
  shows "add_at xs (map int ks) v = Inr (scatter_add xs ks v)"
proof -
  define new where "new = map2 (+) (map ((!) xs) ks) v"
  have s1: "take_idx xs (map int ks) = Inr (map ((!) xs) ks)"
    using ks by (rule take_idx_nat)
  have s2: "inplace (+) (map ((!) xs) ks) v = Inr new"
    using v by (simp add: inplace_same new_def)
  have "sequence (map (py_index (length xs)) (map int ks)) = Inr (map (\<lambda>k. k) ks)"
    unfolding map_map using ks by (intro sequence_map_Inr) simp
  then have s3: "sequence (map (py_index (length xs)) (map int ks)) = Inr ks"
    by simp
  have "fold (\<lambda>p ys. ys[ks ! p := bget new p]) [0..<length ks] xs =
        fold (\<lambda>p ys. ys[ks ! p := xs ! (ks ! p) + v ! p]) [0..<length ks] xs"
    using v by (intro fold_cong) (simp_all add: new_def)
  moreover have "length new = length ks"
    using v by (simp add: new_def)
  ultimately have s4: "put_at xs (map int ks) new = Inr (scatter_add xs ks v)"
    unfolding put_at_def s3 ebind_Inr scatter_add_def by simp
  show ?thesis
    unfolding add_at_def by (simp only: s1 s2 s4 ebind_Inr)
qed

lemma sgd_iteration_closed:
  fixes gen :: generator and it :: nat
  assumes reg: "reg \<noteq> 0" and bs: "batch_size \<le> n_rows M" "batch_size \<le> n_cols M"
    and shape: "sgd_shape M st"
  defines "ba \<equiv> batch_of (raw_alpha gen it) (n_rows M) batch_size"
    and "bb \<equiv> batch_of (raw_beta gen it) (n_cols M) batch_size"
  shows "sgd_iteration_alternate M reg batch_size lr (n_rows M) (n_cols M) gen it st =
           Inr (sgd_step_spec M reg batch_size lr True (it + 1) ba bb st)"
    and "sgd_iteration_joint M reg batch_size lr (n_rows M) (n_cols M) gen it st =
           Inr (sgd_step_spec M reg batch_size lr False (it + 1) ba bb st)"
    and "sgd_shape M (sgd_step_spec M reg batch_size lr alternate (it + 1) ba bb st)"
proof -
  define step where "step = lr / sqrt (real (it + 1))"
  define ga where "ga = map (grad_alpha_entry M reg (cur_alpha st) (sgd_cur_beta st)
                              batch_size bb) ba"
  define alpha' where "alpha' = scatter_add (cur_alpha st) ba (map (\<lambda>x. step * x) ga)"
  define gb where "gb = (\<lambda>al. map (grad_beta_entry M reg al (sgd_cur_beta st) batch_size ba) bb)"
  define beta' where
    "beta' = (\<lambda>al. scatter_add (sgd_cur_beta st) bb (map (\<lambda>x. step * x) (gb al)))"
  have sh: "length (cur_alpha st) = n_rows M" "length (sgd_cur_beta st) = n_cols M"
    using shape by (simp_all add: sgd_shape_def)
  have c1: "choice (raw_alpha gen it) (n_rows M) batch_size = Inr (map int ba)"
    and c2: "choice (raw_beta gen it) (n_cols M) batch_size = Inr (map int bb)"
    using bs by (simp_all add: choice_valid ba_def bb_def)
  have vb: "length ba = batch_size" "\<forall>i\<in>set ba. i < n_rows M"
    "length bb = batch_size" "\<forall>j\<in>set bb. j < n_cols M"
    using choice_valid(2) [OF bs(1), of "raw_alpha gen it"]
      choice_valid(2) [OF bs(2), of "raw_beta gen it"]
    by (simp_all add: valid_batch_def ba_def bb_def)
  have g1: "batch_grad_dual_alpha M reg (cur_alpha st) (sgd_cur_beta st) batch_size
      (map int ba) (map int bb) = Inr ga"
    unfolding ga_def using sh reg vb by (intro batch_grad_dual_alpha_closed)
  have a1: "add_at (cur_alpha st) (map int ba) (map (\<lambda>x. step * x) ga) = Inr alpha'"
    unfolding alpha'_def using sh vb by (intro add_at_closed) (simp_all add: ga_def)
  have la: "length alpha' = n_rows M"
    using sh by (simp add: alpha'_def)
  have g2: "batch_grad_dual_beta M reg al (sgd_cur_beta st) batch_size
      (map int ba) (map int bb) = Inr (gb al)" if "length al = n_rows M" for al
    unfolding gb_def using that sh reg vb by (intro batch_grad_dual_beta_closed)
  have a2: "add_at (sgd_cur_beta st) (map int bb) (map (\<lambda>x. step * x) (gb al)) = Inr (beta' al)"
    for al
    unfolding beta'_def using sh vb by (intro add_at_closed) (simp_all add: gb_def)
  have spec: "sgd_step_spec M reg batch_size lr alt (it + 1) ba bb st =
      \<lparr>cur_alpha = alpha', sgd_cur_beta = beta' (if alt then alpha' else cur_alpha st)\<rparr>" for alt
    unfolding sgd_step_spec_def Let_def step_def ga_def alpha'_def gb_def beta'_def
    by (rule refl)
  show "sgd_iteration_alternate M reg batch_size lr (n_rows M) (n_cols M) gen it st =
           Inr (sgd_step_spec M reg batch_size lr True (it + 1) ba bb st)"
    unfolding sgd_iteration_alternate_def Let_def spec step_def [symmetric]
    by (simp only: c1 c2 g1 a1 g2 [OF la] a2 ebind_Inr if_True)
  show "sgd_iteration_joint M reg batch_size lr (n_rows M) (n_cols M) gen it st =
           Inr (sgd_step_spec M reg batch_size lr False (it + 1) ba bb st)"
    unfolding sgd_iteration_joint_def Let_def spec step_def [symmetric]
    by (simp only: c1 c2 g1 a1 g2 [OF sh(1)] a2 ebind_Inr if_False)
  show "sgd_shape M (sgd_step_spec M reg batch_size lr alternate (it + 1) ba bb st)"
    unfolding spec using sh by (simp add: sgd_shape_def alpha'_def beta'_def)
qed

lemma sgd_loop_closed:
  assumes "reg \<noteq> 0" and "batch_size \<le> n_rows M" and "batch_size \<le> n_cols M"
  shows "sgd_loop M reg batch_size lr alternate gen n =
           Inr (sgd_run_spec M reg batch_size lr alternate gen n)
         \<and> sgd_shape M (sgd_run_spec M reg batch_size lr alternate gen n)"
proof (induction n)
  case 0
  show ?case by (simp add: sgd_loop_def sgd_shape_def sgd_init_def Let_def randn_def)
next
  case (Suc n)
  then have sh: "sgd_shape M (sgd_run_spec M reg batch_size lr alternate gen n)"
    by simp
  note it = sgd_iteration_closed [OF assms sh, where lr = lr and gen = gen and it = n]
  show ?case
  proof (cases alternate)
    case True
    with Suc it(1) it(3) [of True] show ?thesis
      by (simp add: sgd_loop_def)
  next
    case False
    with Suc it(2) it(3) [of False] show ?thesis
      by (simp add: sgd_loop_def)
  qed
qed

lemma sgd_entropic_regularization_closed:
  assumes "reg \<noteq> 0" and "batch_size \<le> n_rows M" and "batch_size \<le> n_cols M"
  shows "sgd_entropic_regularization M reg batch_size numItermax lr alternate gen =
           Inr (cur_alpha (sgd_run_spec M reg batch_size lr alternate gen numItermax),
                sgd_cur_beta (sgd_run_spec M reg batch_size lr alternate gen numItermax))"
  using sgd_loop_closed [OF assms] by (simp add: sgd_entropic_regularization_def)

lemma scatter_add_upto:
  assumes d: "distinct ks" and r: "\<forall>k\<in>set ks. k < length xs"
  shows "m \<le> length ks \<Longrightarrow>
    (\<forall>p<m. fold (\<lambda>p ys. ys[ks ! p := xs ! (ks ! p) + v ! p]) [0..<m] xs ! (ks ! p) =
             xs ! (ks ! p) + v ! p)
    \<and> (\<forall>i. i \<notin> set (take m ks) \<longrightarrow>
          fold (\<lambda>p ys. ys[ks ! p := xs ! (ks ! p) + v ! p]) [0..<m] xs ! i = xs ! i)"
proof (induction m)
  case 0
  show ?case by simp
next
  case (Suc m)
  define ys where "ys = fold (\<lambda>p ys. ys[ks ! p := xs ! (ks ! p) + v ! p]) [0..<m] xs"
  have ih: "\<forall>p<m. ys ! (ks ! p) = xs ! (ks ! p) + v ! p"
    "\<forall>i. i \<notin> set (take m ks) \<longrightarrow> ys ! i = xs ! i"
    using Suc by (simp_all add: ys_def)
  have m: "m < length ks" using Suc.prems by simp
  have lys: "length ys = length xs"
    by (simp add: ys_def length_fold_update)
  have km: "ks ! m < length ys"
    using r m lys by simp
  have step: "fold (\<lambda>p ys. ys[ks ! p := xs ! (ks ! p) + v ! p]) [0..<Suc m] xs =
      ys[ks ! m := xs ! (ks ! m) + v ! m]"
    by (simp add: ys_def)
  have "ys[ks ! m := xs ! (ks ! m) + v ! m] ! (ks ! p) = xs ! (ks ! p) + v ! p"
    if "p < Suc m" for p
  proof (cases "p = m")
    case True
    then show ?thesis using km by simp
  next
    case False
    with that have p: "p < m" by simp
    then have "ks ! p \<noteq> ks ! m"
      using d m by (simp add: nth_eq_iff_index_eq)
    then show ?thesis using ih(1) p by simp
  qed
  moreover have "ys[ks ! m := xs ! (ks ! m) + v ! m] ! i = xs ! i"
    if "i \<notin> set (take (Suc m) ks)" for i
  proof -
    from that m have "i \<noteq> ks ! m" "i \<notin> set (take m ks)"
      by (auto simp add: take_Suc_conv_app_nth)
    then show ?thesis using ih(2) by simp
  qed
  ultimately show ?case
    unfolding step by blast
qed

lemma scatter_add_nth:
  assumes "distinct ks" and "\<forall>k\<in>set ks. k < length xs"
  shows "\<forall>p<length ks. scatter_add xs ks v ! (ks ! p) = xs ! (ks ! p) + v ! p"
    and "\<forall>i. i \<notin> set ks \<longrightarrow> scatter_add xs ks v ! i = xs ! i"
  using scatter_add_upto [OF assms, of "length ks" v] by (simp_all add: scatter_add_def)

text \<open>
  Claim C8. For \<open>reg\<close> not zero and a batch size of at most \<open>ns\<close> and \<open>nt\<close>,
  \<open>sgd_entropic_regularization\<close> returns the pair \<open>(alpha, beta)\<close> reached by exactly
  \<open>numItermax\<close> iterations of the specified step (step size \<open>lr / sqrt k\<close>; the gradient in
  \<open>beta\<close> sees the updated \<open>alpha\<close> exactly when \<open>alternate\<close> is set), starting from the
  vectors drawn by \<open>randn\<close>; the two batches of every iteration hold \<open>batch_size\<close> distinct
  valid indices.
\<close>

theorem sgd_entropic_regularization_correct:
  assumes "reg \<noteq> 0" and "batch_size \<le> n_rows M" and "batch_size \<le> n_cols M"
  shows "sgd_entropic_regularization M reg batch_size numItermax lr alternate gen =
           Inr (cur_alpha (sgd_run_spec M reg batch_size lr alternate gen numItermax),
                sgd_cur_beta (sgd_run_spec M reg batch_size lr alternate gen numItermax))
       \<and> sgd_run_spec M reg batch_size lr alternate gen 0 =
           \<lparr>cur_alpha = map (normal_alpha gen) [0..<n_rows M],
            sgd_cur_beta = map (normal_beta gen) [0..<n_cols M]\<rparr>
       \<and> (\<forall>k. valid_batch (batch_of (raw_alpha gen k) (n_rows M) batch_size) (n_rows M) batch_size
             \<and> valid_batch (batch_of (raw_beta gen k) (n_cols M) batch_size) (n_cols M) batch_size)"
  using assms
  by (simp add: sgd_entropic_regularization_closed choice_valid sgd_init_def Let_def randn_def)

theorem sgd_entropic_regularization_correct_witness:
  "sgd_entropic_regularization \<lparr>n_rows = 2, n_cols = 2, cell = (\<lambda>i j. ln 2)\<rparr> 1 1 1 1 True
     \<lparr>normal_alpha = (\<lambda>k. 0), normal_beta = (\<lambda>k. 0), raw_alpha = (\<lambda>k p. 0),
      raw_beta = (\<lambda>k p. 0)\<rparr>
   = Inr ([1 / 2, 0], [1 - exp (1 / 2) / 2, 0])
   \<and> sgd_entropic_regularization \<lparr>n_rows = 2, n_cols = 2, cell = (\<lambda>i j. ln 2)\<rparr> 1 1 1 1 False
     \<lparr>normal_alpha = (\<lambda>k. 0), normal_beta = (\<lambda>k. 0), raw_alpha = (\<lambda>k p. 0),
      raw_beta = (\<lambda>k p. 0)\<rparr>
   = Inr ([1 / 2, 0], [1 / 2, 0])"
proof -
  let ?M = "\<lparr>n_rows = 2, n_cols = 2, cell = (\<lambda>i j. ln 2)\<rparr>"
  let ?gen = "\<lparr>normal_alpha = (\<lambda>k. 0), normal_beta = (\<lambda>k. 0), raw_alpha = (\<lambda>k p. 0),
      raw_beta = (\<lambda>k p. 0)\<rparr>"
  have b: "batch_of (\<lambda>p. 0) 2 (Suc 0) = [0]"
    by (simp add: batch_of_def upt_rec)
  have i: "map (\<lambda>k. 0::real) [0..<2] = [0, 0]"
    by (simp add: upt_rec)
  have e: "exp (1 / 2 - ln 2) = exp (1 / 2) / (2::real)"
    by (simp add: exp_diff)
  have h: "(1::real) \<noteq> 0" "(1::nat) \<le> n_rows ?M" "(1::nat) \<le> n_cols ?M"
    by simp_all
  show ?thesis
    using sgd_entropic_regularization_correct [OF h, of 1 1 True ?gen]
      sgd_entropic_regularization_correct [OF h, of 1 1 False ?gen]
    by (simp add: sgd_step_spec_def sgd_init_def randn_def Let_def b i e scatter_add_def
        grad_alpha_entry_def grad_beta_entry_def exp_minus)
qed

subsection \<open>The reconstruction of the plan\<close>

lemma bdim_one_right [simp]: "bdim m (Suc 0) = Inr m"
  by (simp add: bdim_def)

lemma bdim_one_left [simp]: "bdim (Suc 0) n = Inr n"
  by (simp add: bdim_def)

lemma mget_in_range: "i < n_rows A \<Longrightarrow> j < n_cols A \<Longrightarrow> mget A i j = cell A i j"
  by (auto simp add: mget_def)

lemma mget_col_vec: "i < length v \<Longrightarrow> mget (col_vec v) i j = v ! i"
  by (auto simp add: mget_def col_vec_def)

lemma mget_row_vec: "j < length v \<Longrightarrow> mget (row_vec v) i j = v ! j"
  by (auto simp add: mget_def row_vec_def)

lemma gibbs_plan_chain:
  assumes la: "length alpha = n_rows M" and lb: "length beta = n_cols M"
    and a: "length a = n_rows M" and b: "length b = n_cols M" and reg: "reg \<noteq> 0"
  shows "\<exists>plan. (\<forall>k :: matrix \<Rightarrow> error + retval.
            ebind (broadcast2d (+) (col_vec alpha) (row_vec beta)) (\<lambda>s.
            ebind (broadcast2d (-) s M) (\<lambda>t.
            ebind (div_scalar2d t reg) (\<lambda>q.
            ebind (broadcast2d (*) (exp2d q) (col_vec a)) (\<lambda>u.
            ebind (broadcast2d (*) u (row_vec b)) k)))) = k plan)
          \<and> is_gibbs_plan plan a b M reg alpha beta"
proof -
  define S where "S = \<lparr>n_rows = n_rows M, n_cols = n_cols M,
    cell = (\<lambda>i j. mget (col_vec alpha) i j + mget (row_vec beta) i j)\<rparr>"
  define T where "T = \<lparr>n_rows = n_rows M, n_cols = n_cols M,
    cell = (\<lambda>i j. mget S i j - mget M i j)\<rparr>"
  define Q where "Q = T\<lparr>cell := (\<lambda>i j. cell T i j / reg)\<rparr>"
  define U where "U = \<lparr>n_rows = n_rows M, n_cols = n_cols M,
    cell = (\<lambda>i j. mget (exp2d Q) i j * mget (col_vec a) i j)\<rparr>"
  define P where "P = \<lparr>n_rows = n_rows M, n_cols = n_cols M,
    cell = (\<lambda>i j. mget U i j * mget (row_vec b) i j)\<rparr>"
  have s1: "broadcast2d (+) (col_vec alpha) (row_vec beta) = Inr S"
    using la lb by (simp add: broadcast2d_def col_vec_def row_vec_def S_def)
  have s2: "broadcast2d (-) S M = Inr T"
    by (simp add: broadcast2d_def S_def T_def)
  have s3: "div_scalar2d T reg = Inr Q"
    using reg by (simp add: div_scalar2d_def Q_def)
  have s4: "broadcast2d (*) (exp2d Q) (col_vec a) = Inr U"
    using a by (simp add: broadcast2d_def exp2d_def Q_def T_def col_vec_def U_def)
  have s5: "broadcast2d (*) U (row_vec b) = Inr P"
    using b by (simp add: broadcast2d_def U_def row_vec_def P_def)
  have chain: "ebind (broadcast2d (+) (col_vec alpha) (row_vec beta)) (\<lambda>s.
            ebind (broadcast2d (-) s M) (\<lambda>t.
            ebind (div_scalar2d t reg) (\<lambda>q.
            ebind (broadcast2d (*) (exp2d q) (col_vec a)) (\<lambda>u.
            ebind (broadcast2d (*) u (row_vec b)) k)))) = k P"
    for k :: "matrix \<Rightarrow> error + retval"
    by (simp only: s1 s2 s3 s4 s5 ebind_Inr)
  have "cell P i j = exp ((alpha ! i + beta ! j - cell M i j) / reg) * a ! i * b ! j"
    if i: "i < n_rows M" and j: "j < n_cols M" for i j
  proof -
    have "mget S i j = alpha ! i + beta ! j"
      using i j la lb by (simp add: mget_in_range S_def mget_col_vec mget_row_vec)
    then have "mget (exp2d Q) i j = exp ((alpha ! i + beta ! j - cell M i j) / reg)"
      using i j by (simp add: mget_in_range exp2d_def Q_def T_def)
    then have "mget U i j = exp ((alpha ! i + beta ! j - cell M i j) / reg) * a ! i"
      using i j a by (simp add: mget_in_range U_def mget_col_vec)
    then show ?thesis
      using i j b by (simp add: P_def mget_row_vec)
  qed
  then have "is_gibbs_plan P a b M reg alpha beta"
    by (simp add: is_gibbs_plan_def P_def)
  with chain show ?thesis by blast
qed

lemma semi_dual_plan_closed:
  assumes a: "length a = n_rows M" and b: "valid_measure b (n_cols M)" and reg: "reg \<noteq> 0"
    and beta: "length opt_beta = n_cols M"
  shows "\<exists>opt_alpha plan. c_transform_entropic b M reg opt_beta = Inr opt_alpha
      \<and> semi_dual_plan a b M reg log_flag opt_beta =
          Inr (if log_flag
               then RPlanLog plan (Map.empty(''alpha'' \<mapsto> opt_alpha, ''beta'' \<mapsto> opt_beta))
               else RPlan plan)
      \<and> is_gibbs_plan plan a b M reg opt_alpha opt_beta"
proof -
  define opt_alpha where
    "opt_alpha = map (\<lambda>i. c_transform_shifted b (matrix_row M i) reg opt_beta) [0..<n_rows M]"
  have lb: "length b = n_cols M"
    using b by (simp add: valid_measure_def)
  have "\<forall>i<n_rows M. 0 < sum_list (gibbs_weights b (matrix_row M i) reg opt_beta)"
    using b beta by (auto intro!: gibbs_weights_sum_pos simp add: valid_measure_def)
  then have ct: "c_transform_entropic b M reg opt_beta = Inr opt_alpha"
    unfolding opt_alpha_def using lb beta reg by (intro c_transform_entropic_closed)
  have "length opt_alpha = n_rows M"
    by (simp add: opt_alpha_def)
  from gibbs_plan_chain [OF this beta a lb reg] obtain plan where
    chain: "\<And>k :: matrix \<Rightarrow> error + retval.
            ebind (broadcast2d (+) (col_vec opt_alpha) (row_vec opt_beta)) (\<lambda>s.
            ebind (broadcast2d (-) s M) (\<lambda>t.
            ebind (div_scalar2d t reg) (\<lambda>q.
            ebind (broadcast2d (*) (exp2d q) (col_vec a)) (\<lambda>u.
            ebind (broadcast2d (*) u (row_vec b)) k)))) = k plan"
    and plan: "is_gibbs_plan plan a b M reg opt_alpha opt_beta"
    by blast
  have "semi_dual_plan a b M reg log_flag opt_beta =
          Inr (if log_flag
               then RPlanLog plan (Map.empty(''alpha'' \<mapsto> opt_alpha, ''beta'' \<mapsto> opt_beta))
               else RPlan plan)"
    unfolding semi_dual_plan_def ct ebind_Inr chain by simp
  with ct plan show ?thesis by blast
qed

lemma solve_dual_entropic_closed:
  assumes a: "length a = n_rows M" and b: "length b = n_cols M" and reg: "reg \<noteq> 0"
    and bs: "batch_size \<le> n_rows M" "batch_size \<le> n_cols M"
  shows "\<exists>opt_alpha opt_beta plan.
      sgd_entropic_regularization M reg batch_size numItermax lr True gen = Inr (opt_alpha, opt_beta)
      \<and> solve_dual_entropic a b M reg batch_size numItermax lr log_flag gen =
          Inr (if log_flag
               then RPlanLog plan (Map.empty(''alpha'' \<mapsto> opt_alpha, ''beta'' \<mapsto> opt_beta))
               else RPlan plan)
      \<and> is_gibbs_plan plan a b M reg opt_alpha opt_beta"
proof -
  define st where "st = sgd_run_spec M reg batch_size lr True gen numItermax"
  have sgd: "sgd_entropic_regularization M reg batch_size numItermax lr True gen =
      Inr (cur_alpha st, sgd_cur_beta st)"
    unfolding st_def using reg bs by (rule sgd_entropic_regularization_closed)
  have "sgd_shape M st"
    unfolding st_def using sgd_loop_closed [OF reg bs] by simp
  then have sh: "length (cur_alpha st) = n_rows M" "length (sgd_cur_beta st) = n_cols M"
    by (simp_all add: sgd_shape_def)
  from gibbs_plan_chain [OF sh a b reg] obtain plan where
    chain: "\<And>k :: matrix \<Rightarrow> error + retval.
            ebind (broadcast2d (+) (col_vec (cur_alpha st)) (row_vec (sgd_cur_beta st))) (\<lambda>s.
            ebind (broadcast2d (-) s M) (\<lambda>t.
            ebind (div_scalar2d t reg) (\<lambda>q.
            ebind (broadcast2d (*) (exp2d q) (col_vec a)) (\<lambda>u.
            ebind (broadcast2d (*) u (row_vec b)) k)))) = k plan"
    and plan: "is_gibbs_plan plan a b M reg (cur_alpha st) (sgd_cur_beta st)"
    by blast
  have "solve_dual_entropic a b M reg batch_size numItermax lr log_flag gen =
          Inr (if log_flag
               then RPlanLog plan (Map.empty(''alpha'' \<mapsto> cur_alpha st,
                                             ''beta'' \<mapsto> sgd_cur_beta st))
               else RPlan plan)"
    unfolding solve_dual_entropic_def sgd ebind_Inr prod.case chain by simp
  with sgd plan show ?thesis by blast
qed

text \<open>
  Claim C9. For probability vectors \<open>a\<close> and \<open>b\<close>, \<open>reg\<close> positive and a batch size of at
  most \<open>ns\<close> and \<open>nt\<close>, both orchestrators return the plan with entries
  \<open>exp((alpha[i] + beta[j] - M[i, j]) / reg) * a[i] * b[j]\<close>. In \<open>solve_semi_dual_entropic\<close>
  (method \<open>sag\<close> or \<open>asgd\<close> in any casing) \<open>beta\<close> is the vector of the solver and \<open>alpha\<close>
  its c-transform; in \<open>solve_dual_entropic\<close> both are the vectors of
  \<open>sgd_entropic_regularization\<close> as they are. With the log flag the dictionary
  \<open>{alpha, beta}\<close> is returned with the plan, without it the plan alone.
\<close>

theorem plan_reconstruction:
  assumes "valid_measure a (n_rows M)" and "valid_measure b (n_cols M)" and "0 < reg"
    and "batch_size \<le> n_rows M" and "batch_size \<le> n_cols M"
    and "lower method = ''sag'' \<or> lower method = ''asgd''"
  shows "(\<exists>opt_beta opt_alpha plan.
            (if lower method = ''sag''
             then sag_entropic_transport a b M reg numItermax lr draws
             else averaged_sgd_entropic_transport a b M reg numItermax lr draws) = Inr opt_beta
          \<and> c_transform_entropic b M reg opt_beta = Inr opt_alpha
          \<and> solve_semi_dual_entropic a b M reg method numItermax lr log_flag draws =
              ([], Inr (if log_flag
                        then RPlanLog plan
                               (Map.empty(''alpha'' \<mapsto> opt_alpha, ''beta'' \<mapsto> opt_beta))
                        else RPlan plan))
          \<and> is_gibbs_plan plan a b M reg opt_alpha opt_beta)
       \<and> (\<exists>opt_alpha opt_beta plan.
            sgd_entropic_regularization M reg batch_size numItermax lr' True gen =
              Inr (opt_alpha, opt_beta)
          \<and> solve_dual_entropic a b M reg batch_size numItermax lr' log_flag gen =
              Inr (if log_flag
                   then RPlanLog plan
                          (Map.empty(''alpha'' \<mapsto> opt_alpha, ''beta'' \<mapsto> opt_beta))
                   else RPlan plan)
          \<and> is_gibbs_plan plan a b M reg opt_alpha opt_beta)"
proof -
  have a: "length a = n_rows M" and b: "length b = n_cols M"
    and ns: "0 < n_rows M" and reg: "reg \<noteq> 0"
    using assms valid_measure_nonempty [of a "n_rows M"] by (simp_all add: valid_measure_def)
  define l where "l = (case lr of None \<Rightarrow> default_lr a reg | Some l \<Rightarrow> l)"
  define opt_beta where "opt_beta =
    (if lower method = ''sag'' then cur_beta (sag_run_spec a b M reg l draws numItermax)
     else ave_beta (asgd_run_spec b M reg l draws numItermax))"
  have solved: "(if lower method = ''sag''
             then sag_entropic_transport a b M reg numItermax lr draws
             else averaged_sgd_entropic_transport a b M reg numItermax lr draws) = Inr opt_beta"
    using assms(1-3)
    by (simp add: opt_beta_def l_def sag_entropic_transport_closed
        averaged_sgd_entropic_transport_closed)
  have "sag_shape M (sag_run_spec a b M reg l draws numItermax)"
    using sag_loop_closed [OF a assms(2) reg ns] by simp
  moreover have "asgd_shape M (asgd_run_spec b M reg l draws numItermax)"
    using asgd_loop_closed [OF assms(2) reg ns] by simp
  ultimately have "length opt_beta = n_cols M"
    by (simp add: opt_beta_def sag_shape_def asgd_shape_def)
  from semi_dual_plan_closed [OF a assms(2) reg this, of log_flag]
  obtain opt_alpha plan where
    ct: "c_transform_entropic b M reg opt_beta = Inr opt_alpha"
    and sp: "semi_dual_plan a b M reg log_flag opt_beta =
          Inr (if log_flag
               then RPlanLog plan (Map.empty(''alpha'' \<mapsto> opt_alpha, ''beta'' \<mapsto> opt_beta))
               else RPlan plan)"
    and plan: "is_gibbs_plan plan a b M reg opt_alpha opt_beta"
    by blast
  have "solve_semi_dual_entropic a b M reg method numItermax lr log_flag draws =
      ([], ebind (if lower method = ''sag''
             then sag_entropic_transport a b M reg numItermax lr draws
             else averaged_sgd_entropic_transport a b M reg numItermax lr draws)
            (semi_dual_plan a b M reg log_flag))"
    using assms(6) by (auto simp add: solve_semi_dual_entropic_def)
  then have "solve_semi_dual_entropic a b M reg method numItermax lr log_flag draws =
      ([], Inr (if log_flag
                then RPlanLog plan (Map.empty(''alpha'' \<mapsto> opt_alpha, ''beta'' \<mapsto> opt_beta))
                else RPlan plan))"
    unfolding solved ebind_Inr sp .
  with solved ct plan have semi: "\<exists>opt_beta opt_alpha plan.
            (if lower method = ''sag''
             then sag_entropic_transport a b M reg numItermax lr draws
             else averaged_sgd_entropic_transport a b M reg numItermax lr draws) = Inr opt_beta
          \<and> c_transform_entropic b M reg opt_beta = Inr opt_alpha
          \<and> solve_semi_dual_entropic a b M reg method numItermax lr log_flag draws =
              ([], Inr (if log_flag
                        then RPlanLog plan
                               (Map.empty(''alpha'' \<mapsto> opt_alpha, ''beta'' \<mapsto> opt_beta))
                        else RPlan plan))
          \<and> is_gibbs_plan plan a b M reg opt_alpha opt_beta"
    by blast
  show ?thesis
    using semi solve_dual_entropic_closed [OF a b reg assms(4,5), of numItermax lr' gen log_flag]
    by blast
qed

theorem plan_reconstruction_witness:
  "lower ''SAG'' = ''sag'' \<and> valid_measure [1/2, 1/2] 2
   \<and> (\<exists>opt_beta opt_alpha plan.
         sag_entropic_transport [1/2, 1/2] [1/2, 1/2]
           \<lparr>n_rows = 2, n_cols = 2, cell = (\<lambda>i j. if i = j then 0 else ln 2)\<rparr> 1 3 None
           (\<lambda>k. k) = Inr opt_beta
       \<and> c_transform_entropic [1/2, 1/2]
           \<lparr>n_rows = 2, n_cols = 2, cell = (\<lambda>i j. if i = j then 0 else ln 2)\<rparr> 1 opt_beta
           = Inr opt_alpha
       \<and> solve_semi_dual_entropic [1/2, 1/2] [1/2, 1/2]
           \<lparr>n_rows = 2, n_cols = 2, cell = (\<lambda>i j. if i = j then 0 else ln 2)\<rparr> 1 ''SAG'' 3 None
           True (\<lambda>k. k) =
           ([], Inr (RPlanLog plan (Map.empty(''alpha'' \<mapsto> opt_alpha, ''beta'' \<mapsto> opt_beta))))
       \<and> is_gibbs_plan plan [1/2, 1/2] [1/2, 1/2]
           \<lparr>n_rows = 2, n_cols = 2, cell = (\<lambda>i j. if i = j then 0 else ln 2)\<rparr> 1
           opt_alpha opt_beta)
   \<and> (\<exists>opt_alpha opt_beta plan.
         sgd_entropic_regularization
           \<lparr>n_rows = 2, n_cols = 2, cell = (\<lambda>i j. if i = j then 0 else ln 2)\<rparr> 1 1 3 1 True
           \<lparr>normal_alpha = (\<lambda>k. 0), normal_beta = (\<lambda>k. 1), raw_alpha = (\<lambda>k p. k),
            raw_beta = (\<lambda>k p. p)\<rparr> = Inr (opt_alpha, opt_beta)
       \<and> solve_dual_entropic [1/2, 1/2] [1/2, 1/2]
           \<lparr>n_rows = 2, n_cols = 2, cell = (\<lambda>i j. if i = j then 0 else ln 2)\<rparr> 1 1 3 1 False
           \<lparr>normal_alpha = (\<lambda>k. 0), normal_beta = (\<lambda>k. 1), raw_alpha = (\<lambda>k p. k),
            raw_beta = (\<lambda>k p. p)\<rparr> = Inr (RPlan plan)
       \<and> is_gibbs_plan plan [1/2, 1/2] [1/2, 1/2]
           \<lparr>n_rows = 2, n_cols = 2, cell = (\<lambda>i j. if i = j then 0 else ln 2)\<rparr> 1
           opt_alpha opt_beta)"
proof -
  let ?M = "\<lparr>n_rows = 2, n_cols = 2, cell = (\<lambda>i j. if i = j then 0 else ln 2)\<rparr>"
  let ?gen = "\<lparr>normal_alpha = (\<lambda>k. 0), normal_beta = (\<lambda>k. 1), raw_alpha = (\<lambda>k p. k),
            raw_beta = (\<lambda>k p. p)\<rparr>"
  have m: "lower ''SAG'' = ''sag''"
    by code_simp
  then have m': "lower ''SAG'' = ''sag'' \<or> lower ''SAG'' = ''asgd''"
    by simp
  have v: "valid_measure [1/2, 1/2] 2"
    by (simp add: valid_measure_def)
  then have v': "valid_measure [1/2, 1/2] (n_rows ?M)" "valid_measure [1/2, 1/2] (n_cols ?M)"
    by simp_all
  have h: "(1::nat) \<le> n_rows ?M" "(1::nat) \<le> n_cols ?M"
    by simp_all
  note inst = plan_reconstruction [OF v' zero_less_one h m', of 3 None "\<lambda>k. k" _ 1 ?gen]
  show ?thesis
    using m v inst [of True, THEN conjunct1] inst [of False, THEN conjunct2]
    by (simp only: if_True if_False simp_thms)
qed

end
